theory Spec2Isabelle
  imports
    Main
    "HOL-Library.Word"
    "HOL-Library.AList"
    "HOL-Library.Char_ord"
    "HOL-Library.List_Lexorder"
    "HOL-Library.Sublist"
begin

section \<open>Page aggregates\<close>

text \<open>
  The Go type \<^verbatim>\<open>PageData = map[string][]byte\<close>.  A Go map is represented by the list of
  its entries in the order a \<^verbatim>\<open>range\<close> loop visits them (an order Go leaves unspecified);
  its keys are pairwise different.  A \<^verbatim>\<open>nil\<close> map is \<open>None\<close>, a made map is \<open>Some\<close>.
\<close>

type_synonym byte = "8 word"

type_synonym PageData = "(string \<times> byte list) list"

definition wf_data :: "PageData option \<Rightarrow> bool" where
  "wf_data d = (case d of None \<Rightarrow> True | Some m \<Rightarrow> distinct (map fst m))"

text \<open>The loop \<^verbatim>\<open>for k, old := range oldData\<close> of \<^verbatim>\<open>DataDiffer\<close>.\<close>

fun DataDiffer_range :: "PageData \<Rightarrow> PageData \<Rightarrow> bool" where
  "DataDiffer_range [] newData = False"
| "DataDiffer_range ((k, old) # rest) newData =
     (case map_of newData k of
        None \<Rightarrow> True
      | Some new \<Rightarrow> if old \<noteq> new then True else DataDiffer_range rest newData)"

definition DataDiffer :: "PageData option \<Rightarrow> PageData option \<Rightarrow> bool" where
  "DataDiffer oldData newData =
     (if oldData = None \<and> newData = None then False
      else if oldData = None \<or> newData = None then True
      else if length (the oldData) \<noteq> length (the newData) then True
      else DataDiffer_range (the oldData) (the newData))"


section \<open>Cluster objects\<close>

text \<open>\<^verbatim>\<open>types.NamespacedName\<close>: the pair (Namespace, Name).\<close>

type_synonym nsname = "string \<times> string"

text \<open>
  Errors are values.  \<open>NotFound\<close> is the error \<^verbatim>\<open>apierrors.IsNotFound\<close> recognises,
  \<open>ContainerCountError\<close> is the \<^verbatim>\<open>fmt.Errorf\<close> of \<^verbatim>\<open>updateDeployment\<close>, and
  \<open>NilPointerDereference\<close> is the Go run-time panic, which unwinds \<^verbatim>\<open>Reconcile\<close>.
\<close>

datatype err =
    NotFound
  | AlreadyExists
  | ApiError string
  | ContainerCountError string nat
  | NilPointerDereference

definition IsNotFound :: "err \<Rightarrow> bool" where
  "IsNotFound e = (e = NotFound)"

datatype ConditionStatus = ConditionTrue | ConditionFalse | ConditionUnknown

record Condition =
  cType :: string
  cStatus :: ConditionStatus
  cReason :: string
  cMessage :: string

record WebServer =
  wNamespace :: string
  wName :: string
  wAnnotations :: "(string \<times> string) list option"
  wImage :: string
  wReplicas :: "32 word"
  wConditions :: "Condition list"

record Page =
  pNamespace :: string
  pName :: string
  pDeletionTimestamp :: "nat option"
  pFinalizers :: "string list"
  pSpecName :: string
  pContents :: string
  pWebServer :: string

text \<open>
  The children.  Of a container only the fields a reconcile decision reads or writes are
  kept (name and image); ports, pull policy and volume mounts are constants of
  \<^verbatim>\<open>createDeployment\<close> that nothing reads back.
\<close>

record Container =
  ctName :: string
  ctImage :: string

record Deployment =
  dNamespace :: string
  dName :: string
  dLabels :: "(string \<times> string) list"
  dOwner :: "nsname option"
  dReplicas :: "32 word option"
  dSelector :: "(string \<times> string) list"
  dContainers :: "Container list"
  dVolume :: "string \<times> string"

record ConfigMap =
  cmNamespace :: string
  cmName :: string
  cmLabels :: "(string \<times> string) list"
  cmOwner :: "nsname option"
  cmBinaryData :: "PageData option"

record Service =
  sNamespace :: string
  sName :: string
  sLabels :: "(string \<times> string) list"
  sOwner :: "nsname option"
  sPorts :: "(string \<times> nat) list"
  sSelector :: "(string \<times> string) list"

record Ingress =
  iNamespace :: string
  iName :: string
  iLabels :: "(string \<times> string) list"
  iOwner :: "nsname option"
  iClassName :: string
  iHost :: string
  iPath :: string
  iBackend :: "string \<times> string"

record Config =
  IngressDomain :: string
  IngressClass :: string

section \<open>The client\<close>

text \<open>
  Every call a reconciler makes on its collaborators is logged in \<open>calls\<close>.  \<open>faults\<close> is
  the script of the environment: the next call takes the head of the script and fails with
  that error if there is one; an empty script lets every call through.  A theorem that
  holds for every script holds for every pattern of failures.
\<close>

datatype kind = KWebServer | KPage | KDeployment | KConfigMap | KService | KIngress

datatype call =
    CGet kind nsname
  | CList string string
  | CCreate kind nsname
  | CUpdate kind nsname
  | CDelete kind nsname
  | CStatusUpdate nsname "Condition list"
  | CSetControllerReference kind nsname

record world =
  webservers :: "WebServer list"
  pages :: "Page list"
  deployments :: "Deployment list"
  configmaps :: "ConfigMap list"
  services :: "Service list"
  ingresses :: "Ingress list"
  Data :: "nsname \<Rightarrow> PageData option"
  Cfg :: Config
  faults :: "err option list"
  calls :: "call list"

definition api :: "call \<Rightarrow> world \<Rightarrow> err option \<times> world" where
  "api c w =
     (case faults w of
        [] \<Rightarrow> (None, w\<lparr>calls := calls w @ [c]\<rparr>)
      | f # fs \<Rightarrow> (f, w\<lparr>faults := fs, calls := calls w @ [c]\<rparr>))"

definition wKey :: "WebServer \<Rightarrow> nsname" where
  "wKey x = (wNamespace x, wName x)"

definition pKey :: "Page \<Rightarrow> nsname" where
  "pKey x = (pNamespace x, pName x)"

definition dKey :: "Deployment \<Rightarrow> nsname" where
  "dKey x = (dNamespace x, dName x)"

definition cmKey :: "ConfigMap \<Rightarrow> nsname" where
  "cmKey x = (cmNamespace x, cmName x)"

definition sKey :: "Service \<Rightarrow> nsname" where
  "sKey x = (sNamespace x, sName x)"

definition iKey :: "Ingress \<Rightarrow> nsname" where
  "iKey x = (iNamespace x, iName x)"

text \<open>\<^verbatim>\<open>r.Get\<close>: the stored object of that name, or \<open>NotFound\<close>.\<close>

definition client_get ::
  "kind \<Rightarrow> ('a \<Rightarrow> nsname) \<Rightarrow> (world \<Rightarrow> 'a list) \<Rightarrow> nsname \<Rightarrow> world \<Rightarrow> (err + 'a) \<times> world" where
  "client_get k key store n w =
     (case api (CGet k n) w of
        (Some e, w1) \<Rightarrow> (Inl e, w1)
      | (None, w1) \<Rightarrow>
          (case find (\<lambda>x. key x = n) (store w1) of
             None \<Rightarrow> (Inl NotFound, w1)
           | Some x \<Rightarrow> (Inr x, w1)))"

text \<open>\<^verbatim>\<open>r.Create\<close>: stores a new object; \<open>AlreadyExists\<close> if the name is taken.\<close>

definition client_create ::
  "kind \<Rightarrow> ('a \<Rightarrow> nsname) \<Rightarrow> (world \<Rightarrow> 'a list) \<Rightarrow> (('a list \<Rightarrow> 'a list) \<Rightarrow> world \<Rightarrow> world)
     \<Rightarrow> 'a \<Rightarrow> world \<Rightarrow> err option \<times> world" where
  "client_create k key store upd obj w =
     (case api (CCreate k (key obj)) w of
        (Some e, w1) \<Rightarrow> (Some e, w1)
      | (None, w1) \<Rightarrow>
          (case find (\<lambda>x. key x = key obj) (store w1) of
             Some x \<Rightarrow> (Some AlreadyExists, w1)
           | None \<Rightarrow> (None, upd (\<lambda>xs. xs @ [obj]) w1)))"

text \<open>\<^verbatim>\<open>r.Update\<close>: replaces the stored object of that name.\<close>

definition client_update ::
  "kind \<Rightarrow> ('a \<Rightarrow> nsname) \<Rightarrow> (world \<Rightarrow> 'a list) \<Rightarrow> (('a list \<Rightarrow> 'a list) \<Rightarrow> world \<Rightarrow> world)
     \<Rightarrow> 'a \<Rightarrow> world \<Rightarrow> err option \<times> world" where
  "client_update k key store upd obj w =
     (case api (CUpdate k (key obj)) w of
        (Some e, w1) \<Rightarrow> (Some e, w1)
      | (None, w1) \<Rightarrow>
          (case find (\<lambda>x. key x = key obj) (store w1) of
             None \<Rightarrow> (Some NotFound, w1)
           | Some x \<Rightarrow> (None, upd (map (\<lambda>y. if key y = key obj then obj else y)) w1)))"

text \<open>\<^verbatim>\<open>r.Delete\<close>: removes the stored object of that name.\<close>

definition client_delete ::
  "kind \<Rightarrow> ('a \<Rightarrow> nsname) \<Rightarrow> (world \<Rightarrow> 'a list) \<Rightarrow> (('a list \<Rightarrow> 'a list) \<Rightarrow> world \<Rightarrow> world)
     \<Rightarrow> 'a \<Rightarrow> world \<Rightarrow> err option \<times> world" where
  "client_delete k key store upd obj w =
     (case api (CDelete k (key obj)) w of
        (Some e, w1) \<Rightarrow> (Some e, w1)
      | (None, w1) \<Rightarrow>
          (case find (\<lambda>x. key x = key obj) (store w1) of
             None \<Rightarrow> (Some NotFound, w1)
           | Some x \<Rightarrow> (None, upd (filter (\<lambda>y. key y \<noteq> key obj)) w1)))"

text \<open>
  What the API server keeps of a ConfigMap: \<^verbatim>\<open>binaryData\<close> is serialised with
  \<^verbatim>\<open>omitempty\<close>, so a map that is present but empty is dropped and read back as nil.
\<close>

definition stored_configmap :: "ConfigMap \<Rightarrow> ConfigMap" where
  "stored_configmap cm =
     (if cmBinaryData cm = Some [] then cm\<lparr>cmBinaryData := None\<rparr> else cm)"

definition client_create_configmap :: "ConfigMap \<Rightarrow> world \<Rightarrow> err option \<times> world" where
  "client_create_configmap cm w =
     client_create KConfigMap cmKey configmaps configmaps_update (stored_configmap cm) w"

definition client_update_configmap :: "ConfigMap \<Rightarrow> world \<Rightarrow> err option \<times> world" where
  "client_update_configmap cm w =
     client_update KConfigMap cmKey configmaps configmaps_update (stored_configmap cm) w"

text \<open>
  \<^verbatim>\<open>r.Status().Update\<close> on a WebServer: only the status of the stored object is written
  (the type carries the marker \<^verbatim>\<open>+kubebuilder:subresource:status\<close>).
\<close>

definition client_status_update :: "WebServer \<Rightarrow> world \<Rightarrow> err option \<times> world" where
  "client_status_update web w =
     (case api (CStatusUpdate (wKey web) (wConditions web)) w of
        (Some e, w1) \<Rightarrow> (Some e, w1)
      | (None, w1) \<Rightarrow>
          (case find (\<lambda>x. wKey x = wKey web) (webservers w1) of
             None \<Rightarrow> (Some NotFound, w1)
           | Some x \<Rightarrow>
               (None, w1\<lparr>webservers :=
                  map (\<lambda>y. if wKey y = wKey web then y\<lparr>wConditions := wConditions web\<rparr> else y)
                    (webservers w1)\<rparr>)))"

text \<open>
  \<^verbatim>\<open>r.Update\<close> on a WebServer: metadata and spec are written, the status of the stored
  object stays (same marker).
\<close>

definition client_update_webserver :: "WebServer \<Rightarrow> world \<Rightarrow> err option \<times> world" where
  "client_update_webserver web w =
     (case api (CUpdate KWebServer (wKey web)) w of
        (Some e, w1) \<Rightarrow> (Some e, w1)
      | (None, w1) \<Rightarrow>
          (case find (\<lambda>x. wKey x = wKey web) (webservers w1) of
             None \<Rightarrow> (Some NotFound, w1)
           | Some x \<Rightarrow>
               (None, w1\<lparr>webservers :=
                  map (\<lambda>y. if wKey y = wKey web then web\<lparr>wConditions := wConditions y\<rparr> else y)
                    (webservers w1)\<rparr>)))"

text \<open>
  \<^verbatim>\<open>r.Update\<close> on a Page.  A page that is marked for deletion and is written back with
  no finalizer left is removed by the API server.
\<close>

definition client_update_page :: "Page \<Rightarrow> world \<Rightarrow> err option \<times> world" where
  "client_update_page page w =
     (case api (CUpdate KPage (pKey page)) w of
        (Some e, w1) \<Rightarrow> (Some e, w1)
      | (None, w1) \<Rightarrow>
          (case find (\<lambda>x. pKey x = pKey page) (pages w1) of
             None \<Rightarrow> (Some NotFound, w1)
           | Some x \<Rightarrow>
               (if pDeletionTimestamp page \<noteq> None \<and> pFinalizers page = []
                then (None, w1\<lparr>pages := filter (\<lambda>y. pKey y \<noteq> pKey page) (pages w1)\<rparr>)
                else (None, w1\<lparr>pages :=
                        map (\<lambda>y. if pKey y = pKey page then page else y) (pages w1)\<rparr>))))"

text \<open>
  \<^verbatim>\<open>r.List\<close> with \<^verbatim>\<open>InNamespace\<close> and \<^verbatim>\<open>MatchingFields{"spec.webserver": webServer}\<close>; the
  index registered by \<^verbatim>\<open>SetupWithManager\<close> maps a page to \<^verbatim>\<open>page.Spec.WebServer\<close>.
\<close>

definition client_list :: "string \<Rightarrow> string \<Rightarrow> world \<Rightarrow> (err + Page list) \<times> world" where
  "client_list namespace webServer w =
     (case api (CList namespace webServer) w of
        (Some e, w1) \<Rightarrow> (Inl e, w1)
      | (None, w1) \<Rightarrow>
          (Inr (filter (\<lambda>p. pNamespace p = namespace \<and> pWebServer p = webServer) (pages w1)), w1))"

text \<open>\<^verbatim>\<open>ctrl.SetControllerReference\<close>: the owner reference, or the error of the script.\<close>

definition SetControllerReference ::
  "WebServer \<Rightarrow> kind \<Rightarrow> nsname \<Rightarrow> world \<Rightarrow> (err + nsname option) \<times> world" where
  "SetControllerReference web k n w =
     (case api (CSetControllerReference k n) w of
        (Some e, w1) \<Rightarrow> (Inl e, w1)
      | (None, w1) \<Rightarrow> (Inr (Some (wKey web)), w1))"

text \<open>
  \<^verbatim>\<open>meta.SetStatusCondition\<close>: the first condition of that type is overwritten in place,
  a type not yet in the list is appended.
\<close>

fun SetStatusCondition :: "Condition list \<Rightarrow> Condition \<Rightarrow> Condition list" where
  "SetStatusCondition [] new = [new]"
| "SetStatusCondition (c # cs) new =
     (if cType c = cType new
      then c\<lparr>cStatus := cStatus new, cReason := cReason new, cMessage := cMessage new\<rparr> # cs
      else c # SetStatusCondition cs new)"

text \<open>\<^verbatim>\<open>controllerutil.AddFinalizer\<close> and \<^verbatim>\<open>controllerutil.RemoveFinalizer\<close>.\<close>

definition AddFinalizer :: "Page \<Rightarrow> string \<Rightarrow> bool \<times> Page" where
  "AddFinalizer page finalizer =
     (if finalizer \<in> set (pFinalizers page) then (False, page)
      else (True, page\<lparr>pFinalizers := pFinalizers page @ [finalizer]\<rparr>))"

definition RemoveFinalizer :: "Page \<Rightarrow> string \<Rightarrow> bool \<times> Page" where
  "RemoveFinalizer page finalizer =
     (finalizer \<in> set (pFinalizers page),
      page\<lparr>pFinalizers := removeAll finalizer (pFinalizers page)\<rparr>)"

definition bytes_of_string :: "string \<Rightarrow> byte list" where
  "bytes_of_string s = map of_char s"

section \<open>The WebServer reconciler\<close>

definition typeAvailableWeb :: string where
  "typeAvailableWeb = ''Available''"

type_synonym reconcileHelperFunc = "WebServer \<Rightarrow> world \<Rightarrow> (err + WebServer) \<times> world"

text \<open>
  \<^verbatim>\<open>getObj\<close> returns the pair (web, err) of the source: (nil, nil) when the object is gone,
  (nil, err) on any other error, (web, nil) otherwise.
\<close>

definition getObj :: "nsname \<Rightarrow> world \<Rightarrow> (WebServer option \<times> err option) \<times> world" where
  "getObj namespacedName w =
     (case client_get KWebServer wKey webservers namespacedName w of
        (Inl e, w1) \<Rightarrow> if IsNotFound e then ((None, None), w1) else ((None, Some e), w1)
      | (Inr web, w1) \<Rightarrow> ((Some web, None), w1))"

definition setStatus ::
  "WebServer \<Rightarrow> ConditionStatus \<Rightarrow> string \<Rightarrow> world \<Rightarrow> (err + WebServer) \<times> world" where
  "setStatus web status message w =
     (let statusReason = ''Reconciling'';
          web1 = web\<lparr>wConditions := SetStatusCondition (wConditions web)
                   \<lparr>cType = typeAvailableWeb, cStatus = status,
                    cReason = statusReason, cMessage = message\<rparr>\<rparr>
      in case client_status_update web1 w of
           (Some e, w1) \<Rightarrow> (Inl e, w1)
         | (None, w1) \<Rightarrow>
             (case client_get KWebServer wKey webservers (wNamespace web1, wName web1) w1 of
                (Inl e, w2) \<Rightarrow> (Inl e, w2)
              | (Inr web2, w2) \<Rightarrow> (Inr web2, w2)))"

text \<open>
  \<^verbatim>\<open>failWithStatus\<close>: \<open>msg\<close> goes to the log only (the log is not part of the model); the
  result of \<^verbatim>\<open>setStatus\<close> is dropped and the error passed in is returned.
\<close>

definition failWithStatus :: "WebServer \<Rightarrow> err \<Rightarrow> string \<Rightarrow> world \<Rightarrow> (err + WebServer) \<times> world" where
  "failWithStatus web e msg w =
     (case setStatus web ConditionFalse ''Failed to create deployment'' w of
        (errStat, w1) \<Rightarrow> (Inl e, w1))"

definition selectorLabels :: "string \<Rightarrow> (string \<times> string) list" where
  "selectorLabels appName =
     [(''app.kubernetes.io/name'', appName @ ''-nginx''),
      (''app.kubernetes.io/part-of'', ''webid-operator'')]"

subsection \<open>Workload\<close>

definition createDeployment :: "WebServer \<Rightarrow> world \<Rightarrow> err option \<times> world" where
  "createDeployment web w =
     (let volName = ''config'';
          labels = selectorLabels (wName web);
          deployment = \<lparr>dNamespace = wNamespace web, dName = wName web, dLabels = labels,
                        dOwner = None, dReplicas = Some (wReplicas web), dSelector = labels,
                        dContainers = [\<lparr>ctName = ''main'', ctImage = wImage web\<rparr>],
                        dVolume = (volName, wName web)\<rparr>
      in case SetControllerReference web KDeployment (dKey deployment) w of
           (Inl e, w1) \<Rightarrow> (Some e, w1)
         | (Inr owner, w1) \<Rightarrow>
             client_create KDeployment dKey deployments deployments_update
               (deployment\<lparr>dOwner := owner\<rparr>) w1)"

text \<open>
  \<^verbatim>\<open>deploymentDiffers\<close>.  \<^verbatim>\<open>||\<close> evaluates its right operand only when the left one is
  false; \<^verbatim>\<open>*deployment.Spec.Replicas\<close> panics on a nil pointer, which is the result \<open>None\<close>.
\<close>

definition deploymentDiffers :: "WebServer \<Rightarrow> Deployment \<Rightarrow> bool option" where
  "deploymentDiffers web deployment =
     (if length (dContainers deployment) \<noteq> 1 then Some True
      else if wImage web \<noteq> ctImage (dContainers deployment ! 0) then Some True
      else (case dReplicas deployment of
              None \<Rightarrow> None
            | Some replicas \<Rightarrow> Some (wReplicas web \<noteq> replicas)))"

definition updateDeployment :: "WebServer \<Rightarrow> Deployment \<Rightarrow> world \<Rightarrow> err option \<times> world" where
  "updateDeployment web deployment w =
     (if length (dContainers deployment) \<noteq> 1
      then (case client_delete KDeployment dKey deployments deployments_update deployment w of
              (delErr, w1) \<Rightarrow>
                (Some (ContainerCountError (dName deployment) (length (dContainers deployment))), w1))
      else client_update KDeployment dKey deployments deployments_update
             (deployment\<lparr>dContainers := (dContainers deployment)
                           [0 := (dContainers deployment ! 0)\<lparr>ctImage := wImage web\<rparr>],
                         dReplicas := Some (wReplicas web)\<rparr>) w)"

definition reconcileDeployment :: reconcileHelperFunc where
  "reconcileDeployment web w =
     (case client_get KDeployment dKey deployments (wNamespace web, wName web) w of
        (Inl e, w1) \<Rightarrow>
          (if \<not> IsNotFound e then failWithStatus web e ''Failed to fetch deployment'' w1
           else (case createDeployment web w1 of
                   (Some e2, w2) \<Rightarrow> failWithStatus web e2 ''Failed to create deployment'' w2
                 | (None, w2) \<Rightarrow> (Inr web, w2)))
      | (Inr deployment, w1) \<Rightarrow>
          (case deploymentDiffers web deployment of
             None \<Rightarrow> (Inl NilPointerDereference, w1)
           | Some True \<Rightarrow>
               (case updateDeployment web deployment w1 of
                  (Some e, w2) \<Rightarrow> failWithStatus web e ''Failed to update deployment'' w2
                | (None, w2) \<Rightarrow> (Inr web, w2))
           | Some False \<Rightarrow> (Inr web, w1)))"

subsection \<open>Config maps\<close>

definition ConfigCMName :: "string \<Rightarrow> string" where
  "ConfigCMName base = base @ ''-'' @ ''config''"

definition DataCMName :: "string \<Rightarrow> string" where
  "DataCMName base = base @ ''-'' @ ''data''"

definition fileConfig :: string where
  "fileConfig = ''default.conf''"

definition nginxConfigData :: string where
  "nginxConfigData = CHR 0x0A # concat (map (\<lambda>l. l @ [CHR 0x0A])
     [''server {'',
      ''    listen       80;'',
      ''    listen  [::]:80;'',
      ''    server_name  localhost;'',
      [],
      ''    location / {'',
      ''        root   /var/www;'',
      ''        autoindex on;'',
      ''        autoindex_exact_size off;'',
      ''        autoindex_format html;'',
      ''        autoindex_localtime on;'',
      ''        default_type text/html;'',
      ''        index  index.html index.htm;'',
      ''    }'',
      [],
      ''    error_page   500 502 503 504  /50x.html;'',
      ''    location = /50x.html {'',
      ''        root   /usr/share/nginx/html;'',
      ''    }'',
      ''}''])"

text \<open>\<^verbatim>\<open>r.DataProvider.GetData\<close> is \<^verbatim>\<open>GetData\<close> of the page reconciler (the mutex is not modelled).\<close>

definition GetData :: "nsname \<Rightarrow> world \<Rightarrow> PageData option" where
  "GetData webNsName w = Data w webNsName"

definition SetData :: "nsname \<Rightarrow> PageData \<Rightarrow> world \<Rightarrow> world" where
  "SetData webNsName data w = w\<lparr>Data := (Data w)(webNsName := Some data)\<rparr>"

definition createConfigMap ::
  "WebServer \<Rightarrow> string \<Rightarrow> PageData option \<Rightarrow> world \<Rightarrow> err option \<times> world" where
  "createConfigMap web name items w =
     (let labels = [(''app.kubernetes.io/name'', name),
                    (''app.kubernetes.io/part-of'', ''webid-operator'')];
          configMap = \<lparr>cmNamespace = wNamespace web, cmName = name, cmLabels = labels,
                       cmOwner = None, cmBinaryData = items\<rparr>
      in case SetControllerReference web KConfigMap (cmKey configMap) w of
           (Inl e, w1) \<Rightarrow> (Some e, w1)
         | (Inr owner, w1) \<Rightarrow>
             client_create_configmap (configMap\<lparr>cmOwner := owner\<rparr>) w1)"

definition createConfigCM :: "WebServer \<Rightarrow> world \<Rightarrow> err option \<times> world" where
  "createConfigCM web w =
     createConfigMap web (ConfigCMName (wName web))
       (Some [(fileConfig, bytes_of_string nginxConfigData)]) w"

definition createDataCM :: "WebServer \<Rightarrow> world \<Rightarrow> err option \<times> world" where
  "createDataCM web w =
     (let data = GetData (wNamespace web, wName web) w
      in createConfigMap web (DataCMName (wName web)) data w)"

definition configMapDiffers :: "ConfigMap \<Rightarrow> PageData option \<Rightarrow> bool" where
  "configMapDiffers configMap data = DataDiffer (cmBinaryData configMap) data"

definition updateConfigMap :: "ConfigMap \<Rightarrow> PageData option \<Rightarrow> world \<Rightarrow> err option \<times> world" where
  "updateConfigMap configMap data w =
     client_update_configmap (configMap\<lparr>cmBinaryData := data\<rparr>) w"

definition reconcileConfigCM :: reconcileHelperFunc where
  "reconcileConfigCM web w =
     (let cmName = ConfigCMName (wName web)
      in case client_get KConfigMap cmKey configmaps (wNamespace web, cmName) w of
           (Inl e, w1) \<Rightarrow>
             (if \<not> IsNotFound e then failWithStatus web e ''Failed to fetch configMap'' w1
              else (case createConfigCM web w1 of
                      (Some e2, w2) \<Rightarrow> failWithStatus web e2 ''Failed to create configMap'' w2
                    | (None, w2) \<Rightarrow> (Inr web, w2)))
         | (Inr configMap, w1) \<Rightarrow> (Inr web, w1))"

definition reconcileDataCM :: reconcileHelperFunc where
  "reconcileDataCM web w =
     (let cmName = DataCMName (wName web)
      in case client_get KConfigMap cmKey configmaps (wNamespace web, cmName) w of
           (Inl e, w1) \<Rightarrow>
             (if \<not> IsNotFound e then failWithStatus web e ''Failed to fetch configMap'' w1
              else (case createDataCM web w1 of
                      (Some e2, w2) \<Rightarrow> failWithStatus web e2 ''Failed to create configMap'' w2
                    | (None, w2) \<Rightarrow> (Inr web, w2)))
         | (Inr configMap, w1) \<Rightarrow>
             (let data = GetData (wNamespace web, wName web) w1
              in if configMapDiffers configMap data
                 then (case updateConfigMap configMap data w1 of
                         (Some e, w2) \<Rightarrow> failWithStatus web e ''Failed to update configMap'' w2
                       | (None, w2) \<Rightarrow> (Inr web, w2))
                 else (Inr web, w1)))"

subsection \<open>Service and ingress\<close>

definition createService :: "WebServer \<Rightarrow> world \<Rightarrow> err option \<times> world" where
  "createService web w =
     (let httpPort = ''http'';
          labels = [(''app.kubernetes.io/name'', wName web @ ''-nginx''),
                    (''app.kubernetes.io/part-of'', ''webid-operator'')];
          service = \<lparr>sNamespace = wNamespace web, sName = wName web, sLabels = labels,
                     sOwner = None, sPorts = [(httpPort, 80)],
                     sSelector = selectorLabels (wName web)\<rparr>
      in case SetControllerReference web KService (sKey service) w of
           (Inl e, w1) \<Rightarrow> (Some e, w1)
         | (Inr owner, w1) \<Rightarrow>
             client_create KService sKey services services_update (service\<lparr>sOwner := owner\<rparr>) w1)"

definition reconcileService :: reconcileHelperFunc where
  "reconcileService web w =
     (case client_get KService sKey services (wNamespace web, wName web) w of
        (Inl e, w1) \<Rightarrow>
          (if \<not> IsNotFound e then failWithStatus web e ''Failed to fetch service'' w1
           else (case createService web w1 of
                   (Some e2, w2) \<Rightarrow> failWithStatus web e2 ''Failed to create service'' w2
                 | (None, w2) \<Rightarrow> (Inr web, w2)))
      | (Inr service, w1) \<Rightarrow> (Inr web, w1))"

definition createIngress :: "WebServer \<Rightarrow> world \<Rightarrow> err option \<times> world" where
  "createIngress web w =
     (let httpPort = ''http'';
          labels = [(''app.kubernetes.io/name'', wName web @ ''-nginx''),
                    (''app.kubernetes.io/part-of'', ''webid-operator'')];
          ingress = \<lparr>iNamespace = wNamespace web, iName = wName web, iLabels = labels,
                     iOwner = None, iClassName = IngressClass (Cfg w),
                     iHost = IngressDomain (Cfg w), iPath = ''/'',
                     iBackend = (wName web, httpPort)\<rparr>
      in case SetControllerReference web KIngress (iKey ingress) w of
           (Inl e, w1) \<Rightarrow> (Some e, w1)
         | (Inr owner, w1) \<Rightarrow>
             client_create KIngress iKey ingresses ingresses_update (ingress\<lparr>iOwner := owner\<rparr>) w1)"

definition reconcileIngress :: reconcileHelperFunc where
  "reconcileIngress web w =
     (case client_get KIngress iKey ingresses (wNamespace web, wName web) w of
        (Inl e, w1) \<Rightarrow>
          (if \<not> IsNotFound e then failWithStatus web e ''Failed to fetch ingress'' w1
           else (case createIngress web w1 of
                   (Some e2, w2) \<Rightarrow> failWithStatus web e2 ''Failed to create ingress'' w2
                 | (None, w2) \<Rightarrow> (Inr web, w2)))
      | (Inr ingress, w1) \<Rightarrow> (Inr web, w1))"

subsection \<open>Reconcile\<close>

definition reconcileFuncs :: "reconcileHelperFunc list" where
  "reconcileFuncs =
     [reconcileDeployment, reconcileConfigCM, reconcileDataCM, reconcileService, reconcileIngress]"

text \<open>The loop \<^verbatim>\<open>for _, reconcileFunc := range reconcileFuncs\<close>.\<close>

fun runSteps :: "reconcileHelperFunc list \<Rightarrow> reconcileHelperFunc" where
  "runSteps [] web w = (Inr web, w)"
| "runSteps (reconcileFunc # rest) web w =
     (case reconcileFunc web w of
        (Inl e, w1) \<Rightarrow> (Inl e, w1)
      | (Inr web1, w1) \<Rightarrow> runSteps rest web1 w1)"

definition webserver_Reconcile :: "nsname \<Rightarrow> world \<Rightarrow> err option \<times> world" where
  "webserver_Reconcile req w =
     (case getObj req w of
        ((None, e), w1) \<Rightarrow> (e, w1)
      | ((Some web, e), w1) \<Rightarrow>
          (case (if wConditions web = []
                 then setStatus web ConditionUnknown ''Starting reconciliation'' w1
                 else (Inr web, w1)) of
             (Inl e1, w2) \<Rightarrow> (Some e1, w2)
           | (Inr web2, w2) \<Rightarrow>
               (case runSteps reconcileFuncs web2 w2 of
                  (Inl e2, w3) \<Rightarrow> (Some e2, w3)
                | (Inr web3, w3) \<Rightarrow>
                    (case setStatus web3 ConditionTrue ''Finished reconciliation'' w3 of
                       (Inl e3, w4) \<Rightarrow> (Some e3, w4)
                     | (Inr web4, w4) \<Rightarrow> (None, w4)))))"

section \<open>The Page reconciler\<close>

definition pageFinalizer :: string where
  "pageFinalizer = ''tomasji.github.com/finalizer''"

definition getPage :: "nsname \<Rightarrow> world \<Rightarrow> (Page option \<times> err option) \<times> world" where
  "getPage namespacedName w =
     (case client_get KPage pKey pages namespacedName w of
        (Inl e, w1) \<Rightarrow> if IsNotFound e then ((None, None), w1) else ((None, Some e), w1)
      | (Inr page, w1) \<Rightarrow> ((Some page, None), w1))"

text \<open>
  \<^verbatim>\<open>addFinalizer\<close> and \<^verbatim>\<open>removeFinalizer\<close> change the page object of the caller in place;
  the models return it next to the error.
\<close>

definition addFinalizer :: "Page \<Rightarrow> world \<Rightarrow> (err option \<times> Page) \<times> world" where
  "addFinalizer page w =
     (case AddFinalizer page pageFinalizer of
        (finalizerAdded, page1) \<Rightarrow>
          if \<not> finalizerAdded then ((None, page1), w)
          else (case client_update_page page1 w of
                  (Some e, w1) \<Rightarrow> ((Some e, page1), w1)
                | (None, w1) \<Rightarrow> ((None, page1), w1)))"

definition removeFinalizer :: "Page \<Rightarrow> world \<Rightarrow> (err option \<times> Page) \<times> world" where
  "removeFinalizer page w =
     (case RemoveFinalizer page pageFinalizer of
        (finalizerRemoved, page1) \<Rightarrow>
          if \<not> finalizerRemoved then ((None, page1), w)
          else (case client_update_page page1 w of
                  (Some e, w1) \<Rightarrow> ((Some e, page1), w1)
                | (None, w1) \<Rightarrow> ((None, page1), w1)))"

definition getWebServer :: "nsname \<Rightarrow> world \<Rightarrow> (err + WebServer) \<times> world" where
  "getWebServer namespacedName w =
     (case client_get KWebServer wKey webservers namespacedName w of
        (Inl e, w1) \<Rightarrow> (Inl e, w1)
      | (Inr webserver, w1) \<Rightarrow> (Inr webserver, w1))"

text \<open>
  \<^verbatim>\<open>makeHash\<close>.  \<open>digest\<close> stands for the Go standard library: the SHA-1 sum of the bytes
  written, in base64.  \<^verbatim>\<open>sort.Strings\<close> is the lexicographic order on bytes; \<^verbatim>\<open>data[k]\<close> of
  a key that is not there is the empty slice.
\<close>

definition hashInput :: "PageData \<Rightarrow> byte list" where
  "hashInput data =
     (let keys = sort (map fst data)
      in concat (map (\<lambda>k. bytes_of_string k @ (case map_of data k of None \<Rightarrow> [] | Some v \<Rightarrow> v)) keys))"

definition makeHash :: "(byte list \<Rightarrow> string) \<Rightarrow> PageData \<Rightarrow> string" where
  "makeHash digest data = digest (hashInput data)"

text \<open>
  The loop \<^verbatim>\<open>for _, i := range list.Items\<close> of \<^verbatim>\<open>prepareData\<close>; \<^verbatim>\<open>newData[k] = v\<close> overwrites
  the entry of \<open>k\<close> or adds one.
\<close>

fun prepareData_range :: "Page list \<Rightarrow> PageData \<Rightarrow> PageData" where
  "prepareData_range [] newData = newData"
| "prepareData_range (i # items) newData =
     (if pDeletionTimestamp i \<noteq> None then prepareData_range items newData
      else prepareData_range items
             (AList.update (pSpecName i) (bytes_of_string (pContents i)) newData))"

definition prepareData ::
  "(byte list \<Rightarrow> string) \<Rightarrow> string \<Rightarrow> string \<Rightarrow> world \<Rightarrow> (bool \<times> string \<times> err option) \<times> world" where
  "prepareData digest namespace webServer w =
     (let nsName = (namespace, webServer)
      in case client_list namespace webServer w of
           (Inl e, w1) \<Rightarrow> ((False, [], Some e), w1)
         | (Inr items, w1) \<Rightarrow>
             (let newData = prepareData_range items [];
                  oldData = GetData nsName w1
              in if DataDiffer oldData (Some newData)
                 then ((True, makeHash digest newData, None), SetData nsName newData w1)
                 else ((False, [], None), w1)))"

definition setWebStatus :: "WebServer \<Rightarrow> string \<Rightarrow> world \<Rightarrow> err option \<times> world" where
  "setWebStatus web hash w =
     (let web1 = web\<lparr>wConditions := SetStatusCondition (wConditions web)
                   \<lparr>cType = ''UpToDate'', cStatus = ConditionFalse,
                    cReason = ''PageChanged'', cMessage = ''Reconciling''\<rparr>\<rparr>;
          annotations = (case wAnnotations web1 of None \<Rightarrow> [] | Some a \<Rightarrow> a);
          web2 = web1\<lparr>wAnnotations := Some (AList.update ''pages'' hash annotations)\<rparr>
      in client_update_webserver web2 w)"

text \<open>
  \<^verbatim>\<open>Reconcile\<close> of the page reconciler.  The error of \<^verbatim>\<open>prepareData\<close> is logged and the
  function goes on.
\<close>

definition pages_Reconcile :: "(byte list \<Rightarrow> string) \<Rightarrow> nsname \<Rightarrow> world \<Rightarrow> err option \<times> world" where
  "pages_Reconcile digest req w =
     (case getPage req w of
        ((None, e), w1) \<Rightarrow> (e, w1)
      | ((Some page, e), w1) \<Rightarrow>
          (let markedForDeletion = (pDeletionTimestamp page \<noteq> None)
           in case (if \<not> markedForDeletion then addFinalizer page w1 else ((None, page), w1)) of
                ((Some e1, page1), w2) \<Rightarrow> (Some e1, w2)
              | ((None, page1), w2) \<Rightarrow>
                  (case getWebServer (pNamespace page1, pWebServer page1) w2 of
                     (Inl e2, w3) \<Rightarrow> (Some e2, w3)
                   | (Inr web, w3) \<Rightarrow>
                       (case prepareData digest (pNamespace page1) (pWebServer page1) w3 of
                          ((dataChanged, hash, e3), w4) \<Rightarrow>
                            (case (if dataChanged then setWebStatus web hash w4 else (None, w4)) of
                               (Some e4, w5) \<Rightarrow> (Some e4, w5)
                             | (None, w5) \<Rightarrow>
                                 (if markedForDeletion
                                  then (case removeFinalizer page1 w5 of
                                          ((Some e5, page2), w6) \<Rightarrow> (Some e5, w6)
                                        | ((None, page2), w6) \<Rightarrow> (None, w6))
                                  else (None, w5)))))))"

section \<open>Notions used to state the properties\<close>

text \<open>The fetch of a child object, with which each ensure-step begins.\<close>

fun isChildGet :: "call \<Rightarrow> bool" where
  "isChildGet (CGet KDeployment n) = True"
| "isChildGet (CGet KConfigMap n) = True"
| "isChildGet (CGet KService n) = True"
| "isChildGet (CGet KIngress n) = True"
| "isChildGet c = False"

text \<open>
  The fetches of the five ensure-steps of the site \<open>n\<close>, in the order Workload,
  StaticConfigBlob, DataConfigBlob, NetworkEndpoint, ExternalRoute.
\<close>

definition stepFetches :: "nsname \<Rightarrow> call list" where
  "stepFetches n =
     [CGet KDeployment n,
      CGet KConfigMap (fst n, ConfigCMName (snd n)),
      CGet KConfigMap (fst n, DataCMName (snd n)),
      CGet KService n,
      CGet KIngress n]"

text \<open>\<open>quiet w w'\<close>: from \<open>w\<close> to \<open>w'\<close> calls were only added, and no child was fetched.\<close>

definition quiet :: "world \<Rightarrow> world \<Rightarrow> bool" where
  "quiet w w' = (\<exists>new. calls w' = calls w @ new \<and> filter isChildGet new = [])"

text \<open>The calls by which a failure is reported: the status write and the re-fetch.\<close>

fun isStatusReport :: "call \<Rightarrow> bool" where
  "isStatusReport (CStatusUpdate n cs) = True"
| "isStatusReport (CGet KWebServer n) = True"
| "isStatusReport c = False"

text \<open>The script lets the next call through.\<close>

definition nextCallOk :: "world \<Rightarrow> bool" where
  "nextCallOk w = (case faults w of [] \<Rightarrow> True | f # fs \<Rightarrow> f = None)"

text \<open>
  The aggregate in the words of the specification: the pages of the namespace whose site
  reference is the site and that are not marked for deletion, each display name mapped to
  the content bytes (of the last such page, where a name occurs twice).
\<close>

definition aggregate_spec :: "Page list \<Rightarrow> string \<Rightarrow> string \<Rightarrow> (string \<rightharpoonup> byte list)" where
  "aggregate_spec ps namespace site =
     map_of (rev (map (\<lambda>p. (pSpecName p, bytes_of_string (pContents p)))
       (filter (\<lambda>p. pNamespace p = namespace \<and> pWebServer p = site \<and> pDeletionTimestamp p = None) ps)))"

section \<open>Example inputs\<close>

definition emptyWorld :: world where
  "emptyWorld =
     \<lparr>webservers = [], pages = [], deployments = [], configmaps = [], services = [],
      ingresses = [], Data = (\<lambda>n. None),
      Cfg = \<lparr>IngressDomain = ''example.org'', IngressClass = ''nginx''\<rparr>,
      faults = [], calls = []\<rparr>"

definition site1 :: WebServer where
  "site1 = \<lparr>wNamespace = ''ns'', wName = ''s1'', wAnnotations = None, wImage = ''x:1'',
            wReplicas = 2, wConditions = []\<rparr>"

definition page1 :: Page where
  "page1 = \<lparr>pNamespace = ''ns'', pName = ''p1'', pDeletionTimestamp = None, pFinalizers = [],
            pSpecName = ''idx'', pContents = ''hello'', pWebServer = ''s1''\<rparr>"

text \<open>The site \<open>s1\<close> with no children yet.\<close>

definition world_site :: world where
  "world_site = emptyWorld\<lparr>webservers := [site1]\<rparr>"

text \<open>
  The page \<open>p1\<close> is marked for deletion and carries the finalizer, the cache of \<open>s1\<close> holds
  its entry, and the third call (the listing) fails.
\<close>

definition world_stale :: world where
  "world_stale = emptyWorld
     \<lparr>webservers := [site1],
      pages := [page1\<lparr>pDeletionTimestamp := Some 1, pFinalizers := [pageFinalizer]\<rparr>],
      Data := (\<lambda>n. if n = (''ns'', ''s1'') then Some [(''idx'', bytes_of_string ''hello'')] else None),
      faults := [None, None, Some (ApiError ''list'')]\<rparr>"

text \<open>The site \<open>s1\<close> with no children; the thirteenth call (the fetch of the service) fails.\<close>

definition world_service_fails :: world where
  "world_service_fails = emptyWorld
     \<lparr>webservers := [site1], faults := replicate 12 None @ [Some (ApiError ''service'')]\<rparr>"

text \<open>The page \<open>p1\<close>, not marked for deletion and without finalizer; its site does not exist.\<close>

definition world_no_site :: world where
  "world_no_site = emptyWorld\<lparr>pages := [page1]\<rparr>"

text \<open>The same page marked for deletion, with its finalizer; its site does not exist.\<close>

definition world_no_site_deleting :: world where
  "world_no_site_deleting = emptyWorld
     \<lparr>pages := [page1\<lparr>pDeletionTimestamp := Some 1, pFinalizers := [pageFinalizer]\<rparr>]\<rparr>"

text \<open>A workload of \<open>s1\<close> with one container of another image and no replica count.\<close>

definition deployment_no_replicas :: Deployment where
  "deployment_no_replicas =
     \<lparr>dNamespace = ''ns'', dName = ''s1'', dLabels = [], dOwner = None, dReplicas = None,
      dSelector = [], dContainers = [\<lparr>ctName = ''main'', ctImage = ''y:2''\<rparr>],
      dVolume = (''config'', ''s1'')\<rparr>"

text \<open>A workload of \<open>s1\<close> with two containers.\<close>

definition deployment_two :: Deployment where
  "deployment_two =
     \<lparr>dNamespace = ''ns'', dName = ''s1'', dLabels = [], dOwner = None, dReplicas = Some 2,
      dSelector = [],
      dContainers = [\<lparr>ctName = ''main'', ctImage = ''x:1''\<rparr>, \<lparr>ctName = ''side'', ctImage = ''z:3''\<rparr>],
      dVolume = (''config'', ''s1'')\<rparr>"

definition world_two_containers :: world where
  "world_two_containers = emptyWorld\<lparr>webservers := [site1], deployments := [deployment_two]\<rparr>"

text \<open>Two pages of \<open>s1\<close>, one of them marked for deletion, and a page of another site.\<close>

definition world_pages :: world where
  "world_pages = emptyWorld
     \<lparr>webservers := [site1],
      pages := [page1,
                page1\<lparr>pName := ''p2'', pSpecName := ''old'', pDeletionTimestamp := Some 1\<rparr>,
                page1\<lparr>pName := ''p3'', pSpecName := ''other'', pWebServer := ''s2''\<rparr>]\<rparr>"

text \<open>The site \<open>s1\<close> after an earlier pass, and a world in which the fetch of its workload fails.\<close>

definition site1_ready :: WebServer where
  "site1_ready = site1\<lparr>wConditions :=
     [\<lparr>cType = ''Available'', cStatus = ConditionTrue, cReason = ''Reconciling'',
       cMessage = ''Finished reconciliation''\<rparr>]\<rparr>"

definition world_deployment_fetch_fails :: world where
  "world_deployment_fetch_fails = emptyWorld
     \<lparr>webservers := [site1_ready], faults := [None, Some (ApiError ''deployment'')]\<rparr>"

text \<open>The site \<open>s1\<close> after the first status write of a pass.\<close>

definition site1_started :: WebServer where
  "site1_started = site1\<lparr>wConditions :=
     [\<lparr>cType = ''Available'', cStatus = ConditionUnknown, cReason = ''Reconciling'',
       cMessage = ''Starting reconciliation''\<rparr>]\<rparr>"

text \<open>A stand-in for the digest where an example needs one: the bytes as characters.\<close>

definition example_digest :: "byte list \<Rightarrow> string" where
  "example_digest bs = map (\<lambda>b. char_of (unat b)) bs"

section \<open>Unfolding the model\<close>

lemmas client_defs = api_def client_get_def client_create_def client_update_def client_delete_def
  client_status_update_def client_update_webserver_def client_update_page_def client_list_def
  SetControllerReference_def wKey_def pKey_def dKey_def cmKey_def sKey_def iKey_def IsNotFound_def
  stored_configmap_def client_create_configmap_def client_update_configmap_def

lemmas pages_defs = pages_Reconcile_def getPage_def addFinalizer_def removeFinalizer_def
  getWebServer_def prepareData_def setWebStatus_def AddFinalizer_def RemoveFinalizer_def
  GetData_def SetData_def DataDiffer_def makeHash_def

lemmas web_defs = webserver_Reconcile_def getObj_def setStatus_def failWithStatus_def
  reconcileFuncs_def reconcileDeployment_def createDeployment_def deploymentDiffers_def
  updateDeployment_def reconcileConfigCM_def reconcileDataCM_def createConfigCM_def
  createDataCM_def createConfigMap_def configMapDiffers_def updateConfigMap_def
  reconcileService_def createService_def reconcileIngress_def createIngress_def
  typeAvailableWeb_def selectorLabels_def ConfigCMName_def DataCMName_def GetData_def
  DataDiffer_def Let_def

lemmas example_defs = emptyWorld_def site1_def page1_def world_site_def world_stale_def
  world_service_fails_def world_no_site_def world_no_site_deleting_def
  deployment_no_replicas_def deployment_two_def world_two_containers_def world_pages_def
  site1_ready_def world_deployment_fetch_fails_def site1_started_def

section \<open>The equality rule of the cache\<close>


lemma DataDiffer_range_iff:
  "DataDiffer_range a b \<longleftrightarrow> (\<exists>(k, v) \<in> set a. map_of b k \<noteq> Some v)"
  by (induction a b rule: DataDiffer_range.induct) (auto split: option.splits)

lemma agree_imp_same_map:
  assumes da: "distinct (map fst a)" and db: "distinct (map fst b)"
    and len: "length a = length b"
    and agree: "\<forall>(k, v) \<in> set a. map_of b k = Some v"
  shows "map_of a = map_of b"
proof -
  have sub: "fst ` set a \<subseteq> fst ` set b"
  proof
    fix k assume "k \<in> fst ` set a"
    then obtain v where "(k, v) \<in> set a" by auto
    with agree have "map_of b k = Some v" by auto
    then have "(k, v) \<in> set b" by (rule map_of_SomeD)
    then show "k \<in> fst ` set b" by force
  qed
  have "card (fst ` set a) = length a" using da by (metis distinct_card length_map set_map)
  moreover have "card (fst ` set b) = length b" using db by (metis distinct_card length_map set_map)
  ultimately have "card (fst ` set a) = card (fst ` set b)" using len by simp
  with sub have keys: "fst ` set a = fst ` set b" by (simp add: card_subset_eq)
  show ?thesis
  proof
    fix k
    show "map_of a k = map_of b k"
    proof (cases "map_of a k")
      case None
      then have "k \<notin> fst ` set b" using keys by (simp add: map_of_eq_None_iff)
      then have "map_of b k = None" by (simp add: map_of_eq_None_iff)
      with None show ?thesis by simp
    next
      case (Some v)
      then have "(k, v) \<in> set a" by (rule map_of_SomeD)
      with agree Some show ?thesis by auto
    qed
  qed
qed

lemma DataDiffer_Some_iff:
  assumes "distinct (map fst a)" "distinct (map fst b)"
  shows "DataDiffer (Some a) (Some b) \<longleftrightarrow> map_of a \<noteq> map_of b"
proof -
  have la: "length a = card (dom (map_of a))" using assms(1)
    by (metis distinct_card dom_map_of_conv_image_fst length_map set_map)
  have lb: "length b = card (dom (map_of b))" using assms(2)
    by (metis distinct_card dom_map_of_conv_image_fst length_map set_map)
  show ?thesis
  proof (cases "length a = length b")
    case False
    then have "map_of a \<noteq> map_of b" using la lb by auto
    with False show ?thesis by (simp add: DataDiffer_def)
  next
    case True
    have "(\<forall>(k, v) \<in> set a. map_of b k = Some v) \<longleftrightarrow> map_of a = map_of b"
      using agree_imp_same_map[OF assms True] assms(1) by (auto simp: map_of_eq_Some_iff[symmetric])
    with True show ?thesis by (auto simp: DataDiffer_def DataDiffer_range_iff)
  qed
qed

text \<open>
  C2.  \<^verbatim>\<open>DataDiffer\<close> follows the equality rule: two absent aggregates do not differ; an
  absent and a present one differ; two present ones differ exactly when their key sets
  have different sizes, or a key is in one and not in the other, or a shared key has
  different value bytes.  So an aggregate does not differ from itself, the absent
  aggregate differs from the empty one, and the rule is symmetric.
\<close>

theorem DataDiffer_equality_rule:
  assumes "wf_data A" and "wf_data B"
  shows "(A = None \<and> B = None \<longrightarrow> \<not> DataDiffer A B)
       \<and> ((A = None) \<noteq> (B = None) \<longrightarrow> DataDiffer A B)
       \<and> (\<forall>a b. A = Some a \<and> B = Some b \<longrightarrow>
            (DataDiffer A B \<longleftrightarrow>
               card (dom (map_of a)) \<noteq> card (dom (map_of b))
             \<or> (\<exists>k. (k \<in> dom (map_of a)) \<noteq> (k \<in> dom (map_of b)))
             \<or> (\<exists>k x y. map_of a k = Some x \<and> map_of b k = Some y \<and> x \<noteq> y)))
       \<and> \<not> DataDiffer A A
       \<and> DataDiffer None (Some [])
       \<and> DataDiffer A B = DataDiffer B A"
proof -
  have maps: "map_of a \<noteq> map_of b \<longleftrightarrow>
          card (dom (map_of a)) \<noteq> card (dom (map_of b))
        \<or> (\<exists>k. (k \<in> dom (map_of a)) \<noteq> (k \<in> dom (map_of b)))
        \<or> (\<exists>k x y. map_of a k = Some x \<and> map_of b k = Some y \<and> x \<noteq> y)" (is "?L \<longleftrightarrow> ?R")
    for a b :: PageData
  proof
    assume ?L
    then obtain k where k: "map_of a k \<noteq> map_of b k" by auto
    show ?R
    proof (cases "map_of a k")
      case None
      with k have "k \<notin> dom (map_of a)" "k \<in> dom (map_of b)" by (auto simp: domIff)
      then show ?thesis by blast
    next
      case (Some x)
      show ?thesis
      proof (cases "map_of b k")
        case None
        with Some have "k \<in> dom (map_of a)" "k \<notin> dom (map_of b)" by (auto simp: domIff)
        then show ?thesis by blast
      next
        case (Some y)
        with \<open>map_of a k = Some x\<close> k show ?thesis by auto
      qed
    qed
  next
    assume ?R then show ?L by auto
  qed
  have both: "DataDiffer (Some a) (Some b) \<longleftrightarrow> map_of a \<noteq> map_of b"
    if "A = Some a" "B = Some b" for a b
    using that assms DataDiffer_Some_iff[of a b] by (simp add: wf_data_def)
  have refl: "\<not> DataDiffer A A"
    using assms(1) DataDiffer_Some_iff[of "the A" "the A"]
    by (cases A) (auto simp: DataDiffer_def wf_data_def)
  have sym: "DataDiffer A B = DataDiffer B A"
  proof (cases A; cases B)
    fix a b assume "A = Some a" "B = Some b"
    then show ?thesis using assms DataDiffer_Some_iff[of a b] DataDiffer_Some_iff[of b a]
      by (auto simp: wf_data_def)
  qed (auto simp: DataDiffer_def)
  show ?thesis using both maps refl sym by (auto simp: DataDiffer_def)
qed

theorem DataDiffer_equality_rule_witness:
  "wf_data (Some [(''a'', [1]), (''b'', [2])]) \<and> wf_data (Some [(''b'', [2]), (''a'', [3])])
   \<and> DataDiffer (Some [(''a'', [1]), (''b'', [2])]) (Some [(''b'', [2]), (''a'', [3])])
   \<and> DataDiffer (Some [(''b'', [2]), (''a'', [3])]) (Some [(''a'', [1]), (''b'', [2])])
   \<and> \<not> DataDiffer (Some [(''a'', [1]), (''b'', [2])]) (Some [(''a'', [1]), (''b'', [2])])"
  using DataDiffer_equality_rule [of "Some [(''a'', [1]), (''b'', [2])]" "Some [(''b'', [2]), (''a'', [3])]"]
  by (simp add: wf_data_def DataDiffer_def)

section \<open>The WebServer reconciler: order of the steps\<close>

subsection \<open>The log of calls\<close>

lemma api_calls: "api c w = (r, w') \<Longrightarrow> calls w' = calls w @ [c]"
  by (auto simp: api_def split: list.splits)

lemma api_frame:
  assumes "api c w = (r, w')"
  shows "webservers w' = webservers w" "pages w' = pages w" "deployments w' = deployments w"
    "configmaps w' = configmaps w" "services w' = services w" "ingresses w' = ingresses w"
    "Data w' = Data w" "Cfg w' = Cfg w"
  using assms by (auto simp: api_def split: list.splits)

lemma api_ok: "nextCallOk w \<Longrightarrow> fst (api c w) = None"
  by (auto simp: api_def nextCallOk_def split: list.splits)

lemma client_get_calls: "client_get k key store n w = (r, w') \<Longrightarrow> calls w' = calls w @ [CGet k n]"
  by (auto simp: client_get_def dest: api_calls split: prod.splits option.splits)

lemma client_create_calls:
  assumes "\<And>f x. calls (upd f x) = calls x"
    and "client_create k key store upd obj w = (r, w')"
  shows "calls w' = calls w @ [CCreate k (key obj)]"
  using assms(2) by (auto simp: client_create_def assms(1) dest: api_calls split: prod.splits option.splits)

lemma client_update_calls:
  assumes "\<And>f x. calls (upd f x) = calls x"
    and "client_update k key store upd obj w = (r, w')"
  shows "calls w' = calls w @ [CUpdate k (key obj)]"
  using assms(2) by (auto simp: client_update_def assms(1) dest: api_calls split: prod.splits option.splits)

lemma client_delete_calls:
  assumes "\<And>f x. calls (upd f x) = calls x"
    and "client_delete k key store upd obj w = (r, w')"
  shows "calls w' = calls w @ [CDelete k (key obj)]"
  using assms(2) by (auto simp: client_delete_def assms(1) dest: api_calls split: prod.splits option.splits)

lemma client_status_update_calls:
  "client_status_update web w = (r, w') \<Longrightarrow>
     calls w' = calls w @ [CStatusUpdate (wKey web) (wConditions web)]"
  by (auto simp: client_status_update_def dest: api_calls split: prod.splits option.splits)

lemma SetControllerReference_calls:
  "SetControllerReference web k n w = (r, w') \<Longrightarrow> calls w' = calls w @ [CSetControllerReference k n]"
  by (auto simp: SetControllerReference_def dest: api_calls split: prod.splits option.splits)

lemma quiet_refl: "quiet w w"
  by (simp add: quiet_def)

lemma quiet_trans: "quiet a b \<Longrightarrow> quiet b c \<Longrightarrow> quiet a c"
  by (auto simp: quiet_def)

lemma quiet_one: "calls w' = calls w @ [c] \<Longrightarrow> \<not> isChildGet c \<Longrightarrow> quiet w w'"
  by (simp add: quiet_def)

lemma report_quiet:
  "calls w' = calls w @ new \<Longrightarrow> list_all isStatusReport new \<Longrightarrow> quiet w w'"
proof -
  have "isStatusReport c \<Longrightarrow> \<not> isChildGet c" for c
    by (cases c rule: isStatusReport.cases) auto
  then have "list_all isStatusReport new \<Longrightarrow> filter isChildGet new = []"
    by (induction new) auto
  then show "calls w' = calls w @ new \<Longrightarrow> list_all isStatusReport new \<Longrightarrow> quiet w w'"
    by (auto simp: quiet_def)
qed

subsection \<open>Status writes\<close>

lemma setStatus_report:
  assumes "setStatus web status message w = (r, w')"
  shows "\<exists>new. calls w' = calls w @ new \<and> list_all isStatusReport new"
  using assms
  by (auto simp: setStatus_def Let_def wKey_def
      dest!: client_status_update_calls client_get_calls split: prod.splits option.splits sum.splits)

lemma failWithStatus_report:
  assumes "failWithStatus web e msg w = (r, w')"
  shows "r = Inl e" "\<exists>new. calls w' = calls w @ new \<and> list_all isStatusReport new"
  using assms by (auto simp: failWithStatus_def split: prod.splits dest: setStatus_report)

lemma setStatus_quiet: "setStatus web status message w = (r, w') \<Longrightarrow> quiet w w'"
  using setStatus_report report_quiet by blast

lemma failWithStatus_quiet: "failWithStatus web e msg w = (r, w') \<Longrightarrow> quiet w w'"
  using failWithStatus_report(2) report_quiet by blast

lemma find_key: "find (\<lambda>x. key x = n) xs = Some x \<Longrightarrow> key x = n"
  by (auto simp: find_Some_iff)

lemma client_get_key: "client_get k key store n w = (Inr x, w') \<Longrightarrow> key x = n"
  by (auto simp: client_get_def dest: find_key split: prod.splits option.splits)

lemma setStatus_key: "setStatus web status message w = (Inr web', w') \<Longrightarrow> wKey web' = wKey web"
  by (auto simp: setStatus_def Let_def wKey_def dest!: client_get_key split: prod.splits option.splits sum.splits)

subsection \<open>The ensure-steps\<close>

lemma createDeployment_quiet: "createDeployment web w = (r, w') \<Longrightarrow> quiet w w'"
  unfolding createDeployment_def Let_def
  by (auto split: prod.splits sum.splits
      simp: quiet_def dest!: SetControllerReference_calls client_create_calls[rotated])

lemma createConfigMap_quiet: "createConfigMap web name items w = (r, w') \<Longrightarrow> quiet w w'"
  unfolding createConfigMap_def client_create_configmap_def Let_def
  by (auto split: prod.splits sum.splits
      simp: quiet_def dest!: SetControllerReference_calls client_create_calls[rotated])

lemma createService_quiet: "createService web w = (r, w') \<Longrightarrow> quiet w w'"
  unfolding createService_def Let_def
  by (auto split: prod.splits sum.splits
      simp: quiet_def dest!: SetControllerReference_calls client_create_calls[rotated])

lemma createIngress_quiet: "createIngress web w = (r, w') \<Longrightarrow> quiet w w'"
  unfolding createIngress_def Let_def
  by (auto split: prod.splits sum.splits
      simp: quiet_def dest!: SetControllerReference_calls client_create_calls[rotated])

lemma updateDeployment_quiet: "updateDeployment web d w = (r, w') \<Longrightarrow> quiet w w'"
  unfolding updateDeployment_def
  by (auto split: prod.splits if_splits
      simp: quiet_def dest!: client_delete_calls[rotated] client_update_calls[rotated])

lemma updateConfigMap_quiet: "updateConfigMap cm data w = (r, w') \<Longrightarrow> quiet w w'"
  unfolding updateConfigMap_def client_update_configmap_def
  by (auto simp: quiet_def dest!: client_update_calls[rotated])

lemma reconcileDeployment_step:
  assumes "reconcileDeployment web w = (r, w')"
  shows "(\<exists>w1. calls w1 = calls w @ [CGet KDeployment (wKey web)] \<and> quiet w1 w')
       \<and> (\<forall>web'. r = Inr web' \<longrightarrow> web' = web)"
proof -
  obtain g w1 where g: "client_get KDeployment dKey deployments (wNamespace web, wName web) w = (g, w1)"
    by fastforce
  then have c: "calls w1 = calls w @ [CGet KDeployment (wKey web)]"
    by (simp add: client_get_calls wKey_def)
  have "quiet w1 w' \<and> (\<forall>web'. r = Inr web' \<longrightarrow> web' = web)"
    using assms g unfolding reconcileDeployment_def
    by (auto split: sum.splits if_splits prod.splits option.splits bool.splits
        dest: failWithStatus_quiet failWithStatus_report(1) createDeployment_quiet updateDeployment_quiet
        intro: quiet_trans quiet_refl)
  with c show ?thesis by blast
qed

lemma reconcileConfigCM_step:
  assumes "reconcileConfigCM web w = (r, w')"
  shows "(\<exists>w1. calls w1 = calls w @ [CGet KConfigMap (wNamespace web, ConfigCMName (wName web))]
            \<and> quiet w1 w')
       \<and> (\<forall>web'. r = Inr web' \<longrightarrow> web' = web)"
proof -
  obtain g w1 where g: "client_get KConfigMap cmKey configmaps
      (wNamespace web, ConfigCMName (wName web)) w = (g, w1)"
    by fastforce
  then have c: "calls w1 = calls w @ [CGet KConfigMap (wNamespace web, ConfigCMName (wName web))]"
    by (simp add: client_get_calls)
  have "quiet w1 w' \<and> (\<forall>web'. r = Inr web' \<longrightarrow> web' = web)"
    using assms g unfolding reconcileConfigCM_def createConfigCM_def Let_def
    by (auto split: sum.splits if_splits prod.splits option.splits
        dest: failWithStatus_quiet failWithStatus_report(1) createConfigMap_quiet
        intro: quiet_trans quiet_refl)
  with c show ?thesis by blast
qed

lemma reconcileDataCM_step:
  assumes "reconcileDataCM web w = (r, w')"
  shows "(\<exists>w1. calls w1 = calls w @ [CGet KConfigMap (wNamespace web, DataCMName (wName web))]
            \<and> quiet w1 w')
       \<and> (\<forall>web'. r = Inr web' \<longrightarrow> web' = web)"
proof -
  obtain g w1 where g: "client_get KConfigMap cmKey configmaps
      (wNamespace web, DataCMName (wName web)) w = (g, w1)"
    by fastforce
  then have c: "calls w1 = calls w @ [CGet KConfigMap (wNamespace web, DataCMName (wName web))]"
    by (simp add: client_get_calls)
  have "quiet w1 w' \<and> (\<forall>web'. r = Inr web' \<longrightarrow> web' = web)"
    using assms g unfolding reconcileDataCM_def createDataCM_def Let_def
    by (auto split: sum.splits if_splits prod.splits option.splits
        dest: failWithStatus_quiet failWithStatus_report(1) createConfigMap_quiet updateConfigMap_quiet
        intro: quiet_trans quiet_refl)
  with c show ?thesis by blast
qed

lemma reconcileService_step:
  assumes "reconcileService web w = (r, w')"
  shows "(\<exists>w1. calls w1 = calls w @ [CGet KService (wKey web)] \<and> quiet w1 w')
       \<and> (\<forall>web'. r = Inr web' \<longrightarrow> web' = web)"
proof -
  obtain g w1 where g: "client_get KService sKey services (wNamespace web, wName web) w = (g, w1)"
    by fastforce
  then have c: "calls w1 = calls w @ [CGet KService (wKey web)]"
    by (simp add: client_get_calls wKey_def)
  have "quiet w1 w' \<and> (\<forall>web'. r = Inr web' \<longrightarrow> web' = web)"
    using assms g unfolding reconcileService_def
    by (auto split: sum.splits if_splits prod.splits option.splits
        dest: failWithStatus_quiet failWithStatus_report(1) createService_quiet
        intro: quiet_trans quiet_refl)
  with c show ?thesis by blast
qed

lemma reconcileIngress_step:
  assumes "reconcileIngress web w = (r, w')"
  shows "(\<exists>w1. calls w1 = calls w @ [CGet KIngress (wKey web)] \<and> quiet w1 w')
       \<and> (\<forall>web'. r = Inr web' \<longrightarrow> web' = web)"
proof -
  obtain g w1 where g: "client_get KIngress iKey ingresses (wNamespace web, wName web) w = (g, w1)"
    by fastforce
  then have c: "calls w1 = calls w @ [CGet KIngress (wKey web)]"
    by (simp add: client_get_calls wKey_def)
  have "quiet w1 w' \<and> (\<forall>web'. r = Inr web' \<longrightarrow> web' = web)"
    using assms g unfolding reconcileIngress_def
    by (auto split: sum.splits if_splits prod.splits option.splits
        dest: failWithStatus_quiet failWithStatus_report(1) createIngress_quiet
        intro: quiet_trans quiet_refl)
  with c show ?thesis by blast
qed

subsection \<open>The loop over the steps\<close>

lemma runSteps_append:
  "runSteps (xs @ ys) web w =
     (case runSteps xs web w of (Inl e, w1) \<Rightarrow> (Inl e, w1) | (Inr web1, w1) \<Rightarrow> runSteps ys web1 w1)"
  by (induction xs arbitrary: web w) (auto split: prod.splits sum.splits)

lemma runSteps_abort:
  assumes "k < length fs"
    and "runSteps (take k fs) web w = (Inr webk, wk)"
    and "(fs ! k) webk wk = (Inl e, wE)"
  shows "runSteps fs web w = (Inl e, wE)"
proof -
  have "fs = take k fs @ (fs ! k) # drop (Suc k) fs"
    using assms(1) by (simp add: id_take_nth_drop)
  then have "runSteps fs web w = runSteps (take k fs @ (fs ! k) # drop (Suc k) fs) web w"
    by simp
  also have "\<dots> = (Inl e, wE)"
    using assms(2,3) by (simp add: runSteps_append)
  finally show ?thesis .
qed

lemma runSteps_reconcileFuncs_calls:
  assumes "runSteps reconcileFuncs web w = (r, w')"
  shows "\<exists>new. calls w' = calls w @ new
           \<and> prefix (filter isChildGet new) (stepFetches (wKey web))
           \<and> (\<forall>web'. r = Inr web' \<longrightarrow> web' = web \<and> filter isChildGet new = stepFetches (wKey web))"
proof -
  obtain r1 w1 where s1: "reconcileDeployment web w = (r1, w1)" by fastforce
  obtain r2 w2 where s2: "reconcileConfigCM web w1 = (r2, w2)" by fastforce
  obtain r3 w3 where s3: "reconcileDataCM web w2 = (r3, w3)" by fastforce
  obtain r4 w4 where s4: "reconcileService web w3 = (r4, w4)" by fastforce
  obtain r5 w5 where s5: "reconcileIngress web w4 = (r5, w5)" by fastforce
  from reconcileDeployment_step[OF s1] obtain n1 where
    c1: "calls w1 = calls w @ CGet KDeployment (wKey web) # n1" "filter isChildGet n1 = []"
    and k1: "\<And>x. r1 = Inr x \<Longrightarrow> x = web"
    by (auto simp: quiet_def)
  from reconcileConfigCM_step[OF s2] obtain n2 where
    c2: "calls w2 = calls w1 @ CGet KConfigMap (wNamespace web, ConfigCMName (wName web)) # n2"
      "filter isChildGet n2 = []"
    and k2: "\<And>x. r2 = Inr x \<Longrightarrow> x = web"
    by (auto simp: quiet_def)
  from reconcileDataCM_step[OF s3] obtain n3 where
    c3: "calls w3 = calls w2 @ CGet KConfigMap (wNamespace web, DataCMName (wName web)) # n3"
      "filter isChildGet n3 = []"
    and k3: "\<And>x. r3 = Inr x \<Longrightarrow> x = web"
    by (auto simp: quiet_def)
  from reconcileService_step[OF s4] obtain n4 where
    c4: "calls w4 = calls w3 @ CGet KService (wKey web) # n4" "filter isChildGet n4 = []"
    and k4: "\<And>x. r4 = Inr x \<Longrightarrow> x = web"
    by (auto simp: quiet_def)
  from reconcileIngress_step[OF s5] obtain n5 where
    c5: "calls w5 = calls w4 @ CGet KIngress (wKey web) # n5" "filter isChildGet n5 = []"
    and k5: "\<And>x. r5 = Inr x \<Longrightarrow> x = web"
    by (auto simp: quiet_def)
  show ?thesis
  proof (cases r1)
    case (Inl e)
    with assms s1 have "w' = w1" "r = Inl e" by (auto simp: reconcileFuncs_def)
    with c1 show ?thesis by (auto simp: stepFetches_def wKey_def)
  next
    case i1: (Inr x1)
    with k1 have x1: "x1 = web" by simp
    show ?thesis
    proof (cases r2)
      case (Inl e)
      with assms s1 s2 i1 x1 have "w' = w2" "r = Inl e" by (auto simp: reconcileFuncs_def)
      with c1 c2 show ?thesis by (auto simp: stepFetches_def wKey_def)
    next
      case i2: (Inr x2)
      with k2 have x2: "x2 = web" by simp
      show ?thesis
      proof (cases r3)
        case (Inl e)
        with assms s1 s2 s3 i1 x1 i2 x2 have "w' = w3" "r = Inl e" by (auto simp: reconcileFuncs_def)
        with c1 c2 c3 show ?thesis by (auto simp: stepFetches_def wKey_def)
      next
        case i3: (Inr x3)
        with k3 have x3: "x3 = web" by simp
        show ?thesis
        proof (cases r4)
          case (Inl e)
          with assms s1 s2 s3 s4 i1 x1 i2 x2 i3 x3 have "w' = w4" "r = Inl e"
            by (auto simp: reconcileFuncs_def)
          with c1 c2 c3 c4 show ?thesis by (auto simp: stepFetches_def wKey_def)
        next
          case i4: (Inr x4)
          with k4 have x4: "x4 = web" by simp
          from assms s1 s2 s3 s4 s5 i1 x1 i2 x2 i3 x3 i4 x4 have fin: "w' = w5" "r = r5"
            by (auto simp: reconcileFuncs_def split: sum.splits)
          show ?thesis
          proof (cases r5)
            case (Inl e)
            with fin c1 c2 c3 c4 c5 show ?thesis by (auto simp: stepFetches_def wKey_def)
          next
            case (Inr x5)
            with k5 have "x5 = web" by simp
            with Inr fin c1 c2 c3 c4 c5 show ?thesis by (auto simp: stepFetches_def wKey_def)
          qed
        qed
      qed
    qed
  qed
qed

lemma getObj_calls: "getObj req w = (r, w1) \<Longrightarrow> calls w1 = calls w @ [CGet KWebServer req]"
  by (auto simp: getObj_def dest!: client_get_calls split: prod.splits sum.splits if_splits)

lemma getObj_key: "getObj req w = ((Some web, e), w1) \<Longrightarrow> wKey web = req \<and> e = None"
  by (auto simp: getObj_def dest!: client_get_key split: prod.splits sum.splits if_splits)

text \<open>
  C4.  Every reconcile of a site fetches the children of the five ensure-steps in the
  order Deployment, config ConfigMap, data ConfigMap, Service, Ingress, without leaving
  one out: the fetches of a call are a prefix of that list, and all of it when the call
  succeeds on a site that exists.  Whenever a step returns an error after the steps
  before it succeeded, the call returns that error in the state the step left, so no
  later step is executed.
\<close>

theorem steps_in_order_abort_on_error:
  assumes "webserver_Reconcile req w = (res, w')"
  shows "(\<exists>new. calls w' = calls w @ new
            \<and> prefix (filter isChildGet new) (stepFetches req)
            \<and> (res = None \<longrightarrow>
                 filter isChildGet new = stepFetches req \<or> new = [CGet KWebServer req]))
       \<and> (\<forall>web w1 web2 w2 k webk wk e wE.
            getObj req w = ((Some web, None), w1)
            \<and> (if wConditions web = []
                then setStatus web ConditionUnknown ''Starting reconciliation'' w1
                else (Inr web, w1)) = (Inr web2, w2)
            \<and> k < length reconcileFuncs
            \<and> runSteps (take k reconcileFuncs) web2 w2 = (Inr webk, wk)
            \<and> (reconcileFuncs ! k) webk wk = (Inl e, wE)
            \<longrightarrow> webserver_Reconcile req w = (Some e, wE))"
proof (intro conjI allI impI)
  fix web w1 web2 w2 k webk wk e wE
  assume h: "getObj req w = ((Some web, None), w1)
            \<and> (if wConditions web = []
                then setStatus web ConditionUnknown ''Starting reconciliation'' w1
                else (Inr web, w1)) = (Inr web2, w2)
            \<and> k < length reconcileFuncs
            \<and> runSteps (take k reconcileFuncs) web2 w2 = (Inr webk, wk)
            \<and> (reconcileFuncs ! k) webk wk = (Inl e, wE)"
  then have "runSteps reconcileFuncs web2 w2 = (Inl e, wE)"
    using runSteps_abort by blast
  with h show "webserver_Reconcile req w = (Some e, wE)"
    by (simp add: webserver_Reconcile_def)
next
  obtain g w1 where g: "getObj req w = (g, w1)" by fastforce
  then have c1: "calls w1 = calls w @ [CGet KWebServer req]" by (rule getObj_calls)
  show "\<exists>new. calls w' = calls w @ new
            \<and> prefix (filter isChildGet new) (stepFetches req)
            \<and> (res = None \<longrightarrow>
                 filter isChildGet new = stepFetches req \<or> new = [CGet KWebServer req])"
  proof (cases "fst g")
    case None
    with g assms have "w' = w1" by (cases g) (auto simp: webserver_Reconcile_def)
    with c1 show ?thesis by auto
  next
    case (Some web)
    with g have gw: "getObj req w = ((Some web, snd g), w1)" by (cases g) auto
    then have key: "wKey web = req" using getObj_key by blast
    obtain i w2 where i: "(if wConditions web = []
                then setStatus web ConditionUnknown ''Starting reconciliation'' w1
                else (Inr web, w1)) = (i, w2)" by fastforce
    then have q12: "quiet w1 w2"
      by (auto split: if_splits dest: setStatus_quiet intro: quiet_refl)
    then obtain n2 where n2: "calls w2 = calls w1 @ n2" "filter isChildGet n2 = []"
      by (auto simp: quiet_def)
    show ?thesis
    proof (cases i)
      case (Inl e1)
      with gw i assms have "w' = w2" by (auto simp: webserver_Reconcile_def)
      with c1 n2 Inl gw i assms show ?thesis by (auto simp: webserver_Reconcile_def)
    next
      case (Inr web2)
      with i have key2: "wKey web2 = req"
        using key by (auto split: if_splits dest: setStatus_key)
      obtain r3 w3 where r3: "runSteps reconcileFuncs web2 w2 = (r3, w3)" by fastforce
      from runSteps_reconcileFuncs_calls[OF r3] key2 obtain n3 where
        n3: "calls w3 = calls w2 @ n3" "prefix (filter isChildGet n3) (stepFetches req)"
          "\<And>x. r3 = Inr x \<Longrightarrow> x = web2 \<and> filter isChildGet n3 = stepFetches req"
        by auto
      show ?thesis
      proof (cases r3)
        case (Inl e2)
        with gw i Inr r3 assms have "w' = w3" "res = Some e2"
          by (auto simp: webserver_Reconcile_def)
        with c1 n2 n3 show ?thesis by auto
      next
        case r: (Inr web3)
        obtain r4 w4 where r4: "setStatus web3 ConditionTrue ''Finished reconciliation'' w3 = (r4, w4)"
          by fastforce
        then have "quiet w3 w4" by (rule setStatus_quiet)
        then obtain n4 where n4: "calls w4 = calls w3 @ n4" "filter isChildGet n4 = []"
          by (auto simp: quiet_def)
        from gw i Inr r3 r r4 assms have "w' = w4"
          by (auto simp: webserver_Reconcile_def split: sum.splits)
        with c1 n2 n3(1) n3(3)[OF r] n4 show ?thesis by auto
      qed
    qed
  qed
qed

theorem steps_in_order_abort_on_error_witness:
  "prefix (filter isChildGet (calls (snd (webserver_Reconcile (''ns'', ''s1'') world_site))))
     (stepFetches (''ns'', ''s1''))
   \<and> getObj (''ns'', ''s1'') world_deployment_fetch_fails =
       ((Some site1_ready, None),
        world_deployment_fetch_fails
          \<lparr>faults := [Some (ApiError ''deployment'')], calls := [CGet KWebServer (''ns'', ''s1'')]\<rparr>)
   \<and> wConditions site1_ready \<noteq> []
   \<and> 0 < length reconcileFuncs
   \<and> webserver_Reconcile (''ns'', ''s1'') world_deployment_fetch_fails =
       (Some (ApiError ''deployment''),
        snd ((reconcileFuncs ! 0) site1_ready
          (world_deployment_fetch_fails
             \<lparr>faults := [Some (ApiError ''deployment'')],
              calls := [CGet KWebServer (''ns'', ''s1'')]\<rparr>)))"
proof -
  let ?rq = "(''ns'', ''s1'')"
  let ?w1 = "world_deployment_fetch_fails
          \<lparr>faults := [Some (ApiError ''deployment'')], calls := [CGet KWebServer (''ns'', ''s1'')]\<rparr>"
  note T1 = steps_in_order_abort_on_error [OF surjective_pairing, of ?rq world_site]
  then obtain new where
    n: "calls (snd (webserver_Reconcile ?rq world_site)) = calls world_site @ new"
       "prefix (filter isChildGet new) (stepFetches ?rq)"
    by blast
  have "calls world_site = []" by (simp add: example_defs)
  with n have p1: "prefix (filter isChildGet (calls (snd (webserver_Reconcile ?rq world_site))))
     (stepFetches ?rq)" by simp
  have g: "getObj ?rq world_deployment_fetch_fails = ((Some site1_ready, None), ?w1)"
    by (simp add: getObj_def client_defs example_defs)
  have c: "wConditions site1_ready \<noteq> []" by (simp add: example_defs)
  have l: "0 < length reconcileFuncs" by (simp add: reconcileFuncs_def)
  have f: "(reconcileFuncs ! 0) site1_ready ?w1 =
      (Inl (ApiError ''deployment''), snd ((reconcileFuncs ! 0) site1_ready ?w1))"
    by (simp add: web_defs client_defs example_defs)
  note T2 = steps_in_order_abort_on_error [OF surjective_pairing, of ?rq world_deployment_fetch_fails,
      THEN conjunct2, rule_format,
      of site1_ready ?w1 site1_ready ?w1 0 site1_ready ?w1 "ApiError ''deployment''"
        "snd ((reconcileFuncs ! 0) site1_ready ?w1)"]
  have "webserver_Reconcile ?rq world_deployment_fetch_fails =
       (Some (ApiError ''deployment''), snd ((reconcileFuncs ! 0) site1_ready ?w1))"
    using g c l f by (intro T2) simp
  with p1 g c l show ?thesis by blast
qed


section \<open>The WebServer reconciler: a corrupt workload\<close>

subsection \<open>What a status write leaves alone\<close>

lemma client_get_frame:
  assumes "client_get k key store n w = (r, w')"
  shows "webservers w' = webservers w" "pages w' = pages w" "deployments w' = deployments w"
    "Data w' = Data w" "faults w' = tl (faults w)"
  using assms by (auto simp: client_get_def api_def split: prod.splits option.splits list.splits)

lemma client_status_update_frame:
  assumes "client_status_update web w = (r, w')"
  shows "pages w' = pages w" "deployments w' = deployments w" "Data w' = Data w"
  using assms
  by (auto simp: client_status_update_def api_def split: prod.splits option.splits list.splits)

lemma setStatus_frame:
  assumes "setStatus web status message w = (r, w')"
  shows "pages w' = pages w" "deployments w' = deployments w" "Data w' = Data w"
  using assms
  by (auto simp: setStatus_def Let_def client_status_update_def client_get_def api_def
      split: prod.splits option.splits sum.splits list.splits)

lemma failWithStatus_frame:
  assumes "failWithStatus web e msg w = (r, w')"
  shows "pages w' = pages w" "deployments w' = deployments w" "Data w' = Data w"
  using assms by (auto simp: failWithStatus_def split: prod.splits dest: setStatus_frame)

lemma find_filter_other: "find (\<lambda>x. key x = n) (filter (\<lambda>y. key y \<noteq> n) xs) = None"
  by (induction xs) auto

lemma client_delete_deployment:
  assumes "client_delete KDeployment dKey deployments deployments_update d w = (r, w')"
    and "find (\<lambda>x. dKey x = dKey d) (deployments w) = Some d"
  shows "if nextCallOk w then find (\<lambda>x. dKey x = dKey d) (deployments w') = None
         else deployments w' = deployments w"
  using assms
  by (auto simp: client_delete_def api_def nextCallOk_def find_filter_other
      split: prod.splits option.splits list.splits)

lemma client_get_found:
  "client_get k key store n w = (Inr x, w') \<Longrightarrow> find (\<lambda>y. key y = n) (store w') = Some x"
  by (auto simp: client_get_def split: prod.splits option.splits)

text \<open>
  C5.  When the fetched Deployment does not have exactly one container, the step asks for
  its deletion right after the fetch, makes no other call on it (only the status calls of
  the failure report follow), and returns the container-count error, which ends the pass;
  the Deployment is gone when the deletion goes through, and untouched otherwise.
\<close>

theorem corrupt_workload_deleted:
  assumes "client_get KDeployment dKey deployments (wNamespace web, wName web) w = (Inr d, w1)"
    and "length (dContainers d) \<noteq> 1"
    and "reconcileDeployment web w = (r, w')"
  shows "r = Inl (ContainerCountError (dName d) (length (dContainers d)))
       \<and> (\<exists>rest. calls w' = calls w @ [CGet KDeployment (dKey d), CDelete KDeployment (dKey d)] @ rest
                 \<and> list_all isStatusReport rest)
       \<and> (if nextCallOk w1 then find (\<lambda>x. dKey x = dKey d) (deployments w') = None
           else deployments w' = deployments w)
       \<and> runSteps reconcileFuncs web w = (r, w')"
proof -
  let ?e = "ContainerCountError (dName d) (length (dContainers d))"
  have key: "dKey d = (wNamespace web, wName web)" using assms(1) by (rule client_get_key)
  have c1: "calls w1 = calls w @ [CGet KDeployment (dKey d)]"
    using assms(1) key by (simp add: client_get_calls)
  have d1: "deployments w1 = deployments w" using assms(1) by (rule client_get_frame)
  have f1: "find (\<lambda>x. dKey x = dKey d) (deployments w1) = Some d"
    using client_get_found[OF assms(1)] key by simp
  obtain de w2 where del: "client_delete KDeployment dKey deployments deployments_update d w1 = (de, w2)"
    by fastforce
  have c2: "calls w2 = calls w1 @ [CDelete KDeployment (dKey d)]"
    using del by (auto dest: client_delete_calls[rotated])
  note d2 = client_delete_deployment[OF del f1]
  have upd: "updateDeployment web d w1 = (Some ?e, w2)"
    using assms(2) del by (simp add: updateDeployment_def)
  have diff: "deploymentDiffers web d = Some True"
    using assms(2) by (simp add: deploymentDiffers_def)
  have fw: "failWithStatus web ?e ''Failed to update deployment'' w2 = (r, w')"
    using assms(1,3) upd diff by (simp add: reconcileDeployment_def)
  from failWithStatus_report[OF fw] obtain rest where
    r: "r = Inl ?e" and c3: "calls w' = calls w2 @ rest" "list_all isStatusReport rest"
    by blast
  have d3: "deployments w' = deployments w2" using fw by (rule failWithStatus_frame)
  have loop: "runSteps reconcileFuncs web w = (r, w')"
    using assms(3) r by (simp add: reconcileFuncs_def)
  from c1 c2 c3 have "\<exists>rest. calls w' = calls w @ [CGet KDeployment (dKey d), CDelete KDeployment (dKey d)] @ rest
                 \<and> list_all isStatusReport rest" by simp
  moreover have "if nextCallOk w1 then find (\<lambda>x. dKey x = dKey d) (deployments w') = None
           else deployments w' = deployments w"
    using d2 d3 d1 by (simp split: if_splits)
  ultimately show ?thesis using r loop by blast
qed

theorem corrupt_workload_deleted_witness:
  "client_get KDeployment dKey deployments (wNamespace site1, wName site1) world_two_containers =
     (Inr deployment_two, world_two_containers\<lparr>calls := [CGet KDeployment (''ns'', ''s1'')]\<rparr>)
   \<and> length (dContainers deployment_two) \<noteq> 1
   \<and> fst (reconcileDeployment site1 world_two_containers) = Inl (ContainerCountError ''s1'' 2)
   \<and> deployments (snd (reconcileDeployment site1 world_two_containers)) = []"
proof -
  have g: "client_get KDeployment dKey deployments (wNamespace site1, wName site1) world_two_containers =
     (Inr deployment_two, world_two_containers\<lparr>calls := [CGet KDeployment (''ns'', ''s1'')]\<rparr>)"
    by (simp add: client_defs example_defs)
  have l: "length (dContainers deployment_two) \<noteq> 1" by (simp add: example_defs)
  have "fst (reconcileDeployment site1 world_two_containers) = Inl (ContainerCountError ''s1'' 2)"
    using corrupt_workload_deleted [OF g l surjective_pairing] by (simp add: example_defs)
  moreover have "deployments (snd (reconcileDeployment site1 world_two_containers)) = []"
    by (simp add: web_defs client_defs example_defs)
  ultimately show ?thesis using g l by blast
qed


section \<open>The WebServer reconciler: status conditions\<close>

subsection \<open>The status condition written by \<^verbatim>\<open>setStatus\<close>\<close>

lemma find_SetStatusCondition:
  "find (\<lambda>c. cType c = cType new) (SetStatusCondition cs new) = Some new"
  by (induction cs) auto

lemma find_map_conditions:
  "find (\<lambda>x. wKey x = n) (map (\<lambda>y. if wKey y = n then y\<lparr>wConditions := cs\<rparr> else y) xs) =
     map_option (\<lambda>y. y\<lparr>wConditions := cs\<rparr>) (find (\<lambda>x. wKey x = n) xs)"
  by (induction xs) (auto simp: wKey_def)

lemma setStatus_first_call:
  assumes "setStatus web status message w = (r, w')"
  shows "\<exists>rest. calls w' = calls w @
           CStatusUpdate (wKey web) (SetStatusCondition (wConditions web)
             \<lparr>cType = ''Available'', cStatus = status, cReason = ''Reconciling'',
              cMessage = message\<rparr>) # rest"
  using assms
  by (auto simp: setStatus_def Let_def wKey_def typeAvailableWeb_def
      dest!: client_status_update_calls client_get_calls split: prod.splits option.splits sum.splits)

lemma setStatus_persisted:
  assumes "setStatus web status message w = (r, w')"
    and "nextCallOk w"
    and "find (\<lambda>x. wKey x = wKey web) (webservers w) = Some y"
  shows "calls w' = calls w @
           [CStatusUpdate (wKey web) (SetStatusCondition (wConditions web)
              \<lparr>cType = ''Available'', cStatus = status, cReason = ''Reconciling'',
               cMessage = message\<rparr>),
            CGet KWebServer (wKey web)]"
  using assms
  by (auto simp: setStatus_def Let_def wKey_def typeAvailableWeb_def client_status_update_def
      api_def nextCallOk_def
      dest!: client_get_calls split: prod.splits option.splits sum.splits list.splits)

lemma setStatus_success:
  assumes "setStatus web status message w = (Inr web', w')"
  shows "calls w' = calls w @
           [CStatusUpdate (wKey web) (SetStatusCondition (wConditions web)
              \<lparr>cType = ''Available'', cStatus = status, cReason = ''Reconciling'',
               cMessage = message\<rparr>),
            CGet KWebServer (wKey web)]
       \<and> find (\<lambda>x. wKey x = wKey web) (webservers w') = Some web'
       \<and> wConditions web' = SetStatusCondition (wConditions web)
              \<lparr>cType = ''Available'', cStatus = status, cReason = ''Reconciling'',
               cMessage = message\<rparr>"
proof -
  let ?cs = "SetStatusCondition (wConditions web)
              \<lparr>cType = ''Available'', cStatus = status, cReason = ''Reconciling'',
               cMessage = message\<rparr>"
  let ?web1 = "web\<lparr>wConditions := ?cs\<rparr>"
  obtain w1 where su: "client_status_update ?web1 w = (None, w1)"
    and g: "client_get KWebServer wKey webservers (wKey web) w1 = (Inr web', w')"
    using assms
    by (auto simp: setStatus_def Let_def wKey_def typeAvailableWeb_def
        split: prod.splits option.splits sum.splits)
  have c1: "calls w1 = calls w @ [CStatusUpdate (wKey web) ?cs]"
    using client_status_update_calls[OF su] by (simp add: wKey_def)
  have c2: "calls w' = calls w1 @ [CGet KWebServer (wKey web)]"
    using g by (rule client_get_calls)
  have st: "webservers w1 =
      map (\<lambda>y. if wKey y = wKey web then y\<lparr>wConditions := ?cs\<rparr> else y) (webservers w)"
    using su
    by (auto simp: client_status_update_def api_def wKey_def
        split: prod.splits option.splits list.splits)
  have f: "find (\<lambda>x. wKey x = wKey web) (webservers w') = Some web'"
    using client_get_found[OF g] .
  have "webservers w' = webservers w1" using g by (rule client_get_frame)
  with f st have "map_option (\<lambda>y. y\<lparr>wConditions := ?cs\<rparr>) (find (\<lambda>x. wKey x = wKey web) (webservers w))
      = Some web'"
    by (simp add: find_map_conditions)
  then have "wConditions web' = ?cs" by auto
  with c1 c2 f show ?thesis by simp
qed

text \<open>
  The reason written is always ``Reconciling''; ``Starting reconciliation'' and ``Finished
  reconciliation'' are the messages.  On the site \<open>s1\<close> without conditions and without
  children the pass succeeds, its second request writes reason ``Reconciling'', and so does
  the condition it leaves.
\<close>

theorem reason_is_Reconciling_counterexample:
  "wConditions site1 = []
   \<and> fst (webserver_Reconcile (''ns'', ''s1'') world_site) = None
   \<and> hd (tl (calls (snd (webserver_Reconcile (''ns'', ''s1'') world_site)))) =
       CStatusUpdate (''ns'', ''s1'')
         [\<lparr>cType = ''Available'', cStatus = ConditionUnknown, cReason = ''Reconciling'',
           cMessage = ''Starting reconciliation''\<rparr>]
   \<and> map wConditions (webservers (snd (webserver_Reconcile (''ns'', ''s1'') world_site))) =
       [ [\<lparr>cType = ''Available'', cStatus = ConditionTrue, cReason = ''Reconciling'',
           cMessage = ''Finished reconciliation''\<rparr>] ]
   \<and> ''Reconciling'' \<noteq> ''Starting reconciliation''
   \<and> ''Reconciling'' \<noteq> ''Finished reconciliation''"
  by (simp add: web_defs client_defs example_defs)

lemma getObj_found:
  "getObj req w = ((Some web, e), w1) \<Longrightarrow> find (\<lambda>x. wKey x = req) (webservers w1) = Some web"
  by (auto simp: getObj_def dest!: client_get_found split: prod.splits sum.splits if_splits)

subsection \<open>A step that succeeds leaves the stored sites alone\<close>

lemma SetControllerReference_webservers:
  "SetControllerReference web k n w = (r, w') \<Longrightarrow> webservers w' = webservers w"
  by (auto simp: SetControllerReference_def api_def split: prod.splits option.splits list.splits)

lemma client_create_webservers:
  assumes "\<And>f x. webservers (upd f x) = webservers x"
    and "client_create k key store upd obj w = (r, w')"
  shows "webservers w' = webservers w"
  using assms(2)
  by (auto simp: client_create_def api_def assms(1) split: prod.splits option.splits list.splits)

lemma client_update_webservers:
  assumes "\<And>f x. webservers (upd f x) = webservers x"
    and "client_update k key store upd obj w = (r, w')"
  shows "webservers w' = webservers w"
  using assms(2)
  by (auto simp: client_update_def api_def assms(1) split: prod.splits option.splits list.splits)

lemma client_delete_webservers:
  assumes "\<And>f x. webservers (upd f x) = webservers x"
    and "client_delete k key store upd obj w = (r, w')"
  shows "webservers w' = webservers w"
  using assms(2)
  by (auto simp: client_delete_def api_def assms(1) split: prod.splits option.splits list.splits)

lemma createDeployment_webservers: "createDeployment web w = (r, w') \<Longrightarrow> webservers w' = webservers w"
  unfolding createDeployment_def Let_def
  by (auto split: prod.splits sum.splits
      dest!: SetControllerReference_webservers client_create_webservers[rotated])

lemma createConfigMap_webservers:
  "createConfigMap web name items w = (r, w') \<Longrightarrow> webservers w' = webservers w"
  unfolding createConfigMap_def client_create_configmap_def Let_def
  by (auto split: prod.splits sum.splits
      dest!: SetControllerReference_webservers client_create_webservers[rotated])

lemma createService_webservers: "createService web w = (r, w') \<Longrightarrow> webservers w' = webservers w"
  unfolding createService_def Let_def
  by (auto split: prod.splits sum.splits
      dest!: SetControllerReference_webservers client_create_webservers[rotated])

lemma createIngress_webservers: "createIngress web w = (r, w') \<Longrightarrow> webservers w' = webservers w"
  unfolding createIngress_def Let_def
  by (auto split: prod.splits sum.splits
      dest!: SetControllerReference_webservers client_create_webservers[rotated])

lemma updateDeployment_webservers:
  "updateDeployment web d w = (r, w') \<Longrightarrow> webservers w' = webservers w"
  unfolding updateDeployment_def
  by (auto split: prod.splits if_splits
      dest!: client_delete_webservers[rotated] client_update_webservers[rotated])

lemma updateConfigMap_webservers:
  "updateConfigMap cm data w = (r, w') \<Longrightarrow> webservers w' = webservers w"
  unfolding updateConfigMap_def client_update_configmap_def
  by (auto dest!: client_update_webservers[rotated])

lemma reconcileDeployment_webservers:
  assumes "reconcileDeployment web w = (Inr web', w')"
  shows "webservers w' = webservers w"
proof -
  obtain g w1 where g: "client_get KDeployment dKey deployments (wNamespace web, wName web) w = (g, w1)"
    by fastforce
  then have "webservers w1 = webservers w" by (rule client_get_frame)
  moreover have "webservers w' = webservers w1"
    using assms g unfolding reconcileDeployment_def
    by (auto split: sum.splits if_splits prod.splits option.splits bool.splits
        dest: failWithStatus_report(1) createDeployment_webservers updateDeployment_webservers)
  ultimately show ?thesis by simp
qed

lemma reconcileConfigCM_webservers:
  assumes "reconcileConfigCM web w = (Inr web', w')"
  shows "webservers w' = webservers w"
proof -
  obtain g w1 where g: "client_get KConfigMap cmKey configmaps (wNamespace web, ConfigCMName (wName web)) w = (g, w1)"
    by fastforce
  then have "webservers w1 = webservers w" by (rule client_get_frame)
  moreover have "webservers w' = webservers w1"
    using assms g unfolding reconcileConfigCM_def createConfigCM_def Let_def
    by (auto split: sum.splits if_splits prod.splits option.splits bool.splits
        dest: failWithStatus_report(1) createConfigMap_webservers)
  ultimately show ?thesis by simp
qed

lemma reconcileDataCM_webservers:
  assumes "reconcileDataCM web w = (Inr web', w')"
  shows "webservers w' = webservers w"
proof -
  obtain g w1 where g: "client_get KConfigMap cmKey configmaps (wNamespace web, DataCMName (wName web)) w = (g, w1)"
    by fastforce
  then have "webservers w1 = webservers w" by (rule client_get_frame)
  moreover have "webservers w' = webservers w1"
    using assms g unfolding reconcileDataCM_def createDataCM_def Let_def
    by (auto split: sum.splits if_splits prod.splits option.splits bool.splits
        dest: failWithStatus_report(1) createConfigMap_webservers updateConfigMap_webservers)
  ultimately show ?thesis by simp
qed

lemma reconcileService_webservers:
  assumes "reconcileService web w = (Inr web', w')"
  shows "webservers w' = webservers w"
proof -
  obtain g w1 where g: "client_get KService sKey services (wNamespace web, wName web) w = (g, w1)"
    by fastforce
  then have "webservers w1 = webservers w" by (rule client_get_frame)
  moreover have "webservers w' = webservers w1"
    using assms g unfolding reconcileService_def
    by (auto split: sum.splits if_splits prod.splits option.splits bool.splits
        dest: failWithStatus_report(1) createService_webservers)
  ultimately show ?thesis by simp
qed

lemma reconcileIngress_webservers:
  assumes "reconcileIngress web w = (Inr web', w')"
  shows "webservers w' = webservers w"
proof -
  obtain g w1 where g: "client_get KIngress iKey ingresses (wNamespace web, wName web) w = (g, w1)"
    by fastforce
  then have "webservers w1 = webservers w" by (rule client_get_frame)
  moreover have "webservers w' = webservers w1"
    using assms g unfolding reconcileIngress_def
    by (auto split: sum.splits if_splits prod.splits option.splits bool.splits
        dest: failWithStatus_report(1) createIngress_webservers)
  ultimately show ?thesis by simp
qed

lemma runSteps_webservers:
  assumes "list_all (\<lambda>f. \<forall>web w web' w'. f web w = (Inr web', w') \<longrightarrow> webservers w' = webservers w) fs"
    and "runSteps fs web w = (Inr web', w')"
  shows "webservers w' = webservers w"
  using assms
proof (induction fs arbitrary: web w)
  case Nil
  then show ?case by simp
next
  case (Cons f fs)
  obtain r1 w1 where f: "f web w = (r1, w1)" by fastforce
  with Cons.prems(2) obtain web1 where r1: "r1 = Inr web1" and rest: "runSteps fs web1 w1 = (Inr web', w')"
    by (cases r1) auto
  from Cons.prems(1) f r1 have "webservers w1 = webservers w" by auto
  moreover from Cons.IH[OF _ rest] Cons.prems(1) have "webservers w' = webservers w1" by simp
  ultimately show ?case by simp
qed

lemma runSteps_reconcileFuncs_webservers:
  "runSteps reconcileFuncs web w = (Inr web', w') \<Longrightarrow> webservers w' = webservers w"
  by (rule runSteps_webservers[of reconcileFuncs])
    (auto simp: reconcileFuncs_def
      dest: reconcileDeployment_webservers reconcileConfigCM_webservers reconcileDataCM_webservers
        reconcileService_webservers reconcileIngress_webservers)

lemma setStatus_succeeds:
  assumes "list_all (\<lambda>f. f = None) (take 2 (faults w))"
    and "find (\<lambda>x. wKey x = wKey web) (webservers w) = Some y"
  shows "\<exists>web' w'. setStatus web status message w = (Inr web', w')"
proof -
  let ?web1 = "web\<lparr>wConditions := SetStatusCondition (wConditions web)
                   \<lparr>cType = typeAvailableWeb, cStatus = status,
                    cReason = ''Reconciling'', cMessage = message\<rparr>\<rparr>"
  have k: "wKey ?web1 = wKey web" by (simp add: wKey_def)
  obtain w1 where su: "client_status_update ?web1 w = (None, w1)"
    and f1: "list_all (\<lambda>f. f = None) (take 1 (faults w1))"
    and st: "webservers w1 =
      map (\<lambda>x. if wKey x = wKey web then x\<lparr>wConditions := wConditions ?web1\<rparr> else x) (webservers w)"
    using assms
    by (cases "faults w"; cases "tl (faults w)")
      (auto simp: client_status_update_def api_def k)
  from st assms(2) have "find (\<lambda>x. wKey x = wKey web) (webservers w1) \<noteq> None"
    by (simp add: find_map_conditions)
  then obtain z where z: "find (\<lambda>x. wKey x = wKey web) (webservers w1) = Some z" by auto
  obtain w2 where "client_get KWebServer wKey webservers (wKey web) w1 = (Inr z, w2)"
    using f1 z by (cases "faults w1") (auto simp: client_get_def api_def)
  with su show ?thesis
    by (auto simp: setStatus_def Let_def wKey_def)
qed

text \<open>
  C8, amended.  On a site that was fetched with an empty condition list, the call's next
  request is the status write of the single condition Available = Unknown with reason
  ``Reconciling'' and message ``Starting reconciliation'', and when that write goes
  through the site is fetched again.  When all five steps have succeeded, the call's next
  request is the status write of Available = True with reason ``Reconciling'' and message
  ``Finished reconciliation''; the call then returns success unless that write or the
  re-fetch fails, and it does return success when the API accepts both.  Whenever the call
  returns success, its last two requests are that write and the re-fetch, and the written
  list is the condition list of the stored site.
\<close>

theorem status_conditions_of_a_pass:
  assumes "getObj req w = ((Some web, None), w1)"
    and "webserver_Reconcile req w = (res, w')"
  shows "(wConditions web = [] \<longrightarrow>
            (\<exists>rest. calls w' = calls w @
               [CGet KWebServer req,
                CStatusUpdate req
                  [\<lparr>cType = ''Available'', cStatus = ConditionUnknown, cReason = ''Reconciling'',
                    cMessage = ''Starting reconciliation''\<rparr>] ] @ rest
               \<and> (nextCallOk w1 \<longrightarrow> (\<exists>rest'. rest = CGet KWebServer req # rest'))))
       \<and> (res = None \<longrightarrow>
            (\<exists>pre conds web'.
               calls w' = pre @ [CStatusUpdate req conds, CGet KWebServer req]
               \<and> find (\<lambda>c. cType c = ''Available'') conds =
                   Some \<lparr>cType = ''Available'', cStatus = ConditionTrue, cReason = ''Reconciling'',
                         cMessage = ''Finished reconciliation''\<rparr>
               \<and> find (\<lambda>x. wKey x = req) (webservers w') = Some web'
               \<and> wConditions web' = conds))
       \<and> (\<forall>web2 w2 web3 w3.
            (if wConditions web = []
             then setStatus web ConditionUnknown ''Starting reconciliation'' w1
             else (Inr web, w1)) = (Inr web2, w2)
            \<and> runSteps reconcileFuncs web2 w2 = (Inr web3, w3)
            \<longrightarrow>
              (\<exists>rest. calls w' = calls w3 @
                 CStatusUpdate req (SetStatusCondition (wConditions web3)
                   \<lparr>cType = ''Available'', cStatus = ConditionTrue, cReason = ''Reconciling'',
                    cMessage = ''Finished reconciliation''\<rparr>) # rest)
              \<and> find (\<lambda>c. cType c = ''Available'') (SetStatusCondition (wConditions web3)
                   \<lparr>cType = ''Available'', cStatus = ConditionTrue, cReason = ''Reconciling'',
                    cMessage = ''Finished reconciliation''\<rparr>) =
                  Some \<lparr>cType = ''Available'', cStatus = ConditionTrue, cReason = ''Reconciling'',
                        cMessage = ''Finished reconciliation''\<rparr>
              \<and> (res = None
                   \<or> (\<exists>e. res = Some e
                        \<and> setStatus web3 ConditionTrue ''Finished reconciliation'' w3 = (Inl e, w')))
              \<and> (list_all (\<lambda>f. f = None) (take 2 (faults w3)) \<longrightarrow> res = None))"
proof -
  let ?fin = "\<lparr>cType = ''Available'', cStatus = ConditionTrue, cReason = ''Reconciling'',
                 cMessage = ''Finished reconciliation''\<rparr>"
  have key: "wKey web = req" using getObj_key[OF assms(1)] by simp
  have c1: "calls w1 = calls w @ [CGet KWebServer req]" using assms(1) by (rule getObj_calls)
  have stored: "find (\<lambda>x. wKey x = wKey web) (webservers w1) = Some web"
    using getObj_found[OF assms(1)] key by simp
  obtain i w2 where i: "(if wConditions web = []
                then setStatus web ConditionUnknown ''Starting reconciliation'' w1
                else (Inr web, w1)) = (i, w2)" by fastforce
  text \<open>What follows the entry only adds calls.\<close>
  have tail: "\<exists>more. calls w' = calls w2 @ more"
  proof (cases i)
    case (Inl e1)
    with assms i have "w' = w2" by (auto simp: webserver_Reconcile_def)
    then show ?thesis by simp
  next
    case (Inr web2)
    obtain r3 w3 where r3: "runSteps reconcileFuncs web2 w2 = (r3, w3)" by fastforce
    from runSteps_reconcileFuncs_calls[OF r3] obtain n3 where n3: "calls w3 = calls w2 @ n3"
      by blast
    show ?thesis
    proof (cases r3)
      case (Inl e2)
      with assms i Inr r3 have "w' = w3" by (auto simp: webserver_Reconcile_def)
      with n3 show ?thesis by simp
    next
      case r: (Inr web3)
      obtain r4 w4 where r4: "setStatus web3 ConditionTrue ''Finished reconciliation'' w3 = (r4, w4)"
        by fastforce
      from setStatus_report[OF r4] obtain n4 where n4: "calls w4 = calls w3 @ n4" by blast
      from assms i Inr r3 r r4 have "w' = w4"
        by (auto simp: webserver_Reconcile_def split: sum.splits)
      with n3 n4 show ?thesis by simp
    qed
  qed
  have first: "\<exists>rest. calls w' = calls w @
               [CGet KWebServer req,
                CStatusUpdate req
                  [\<lparr>cType = ''Available'', cStatus = ConditionUnknown, cReason = ''Reconciling'',
                    cMessage = ''Starting reconciliation''\<rparr>] ] @ rest
               \<and> (nextCallOk w1 \<longrightarrow> (\<exists>rest'. rest = CGet KWebServer req # rest'))"
    if empty: "wConditions web = []"
  proof -
    from i empty have s: "setStatus web ConditionUnknown ''Starting reconciliation'' w1 = (i, w2)"
      by simp
    from tail obtain more where more: "calls w' = calls w2 @ more" by blast
    show ?thesis
    proof (cases "nextCallOk w1")
      case True
      from setStatus_persisted[OF s True stored] more c1 key empty
      show ?thesis by simp
    next
      case False
      from setStatus_first_call[OF s] more c1 key empty False
      show ?thesis by auto
    qed
  qed
  text \<open>After five successful steps: the last status write.\<close>
  have last_write:
    "(\<exists>rest. calls w' = calls w3 @
         CStatusUpdate req (SetStatusCondition (wConditions web3) ?fin) # rest)
     \<and> find (\<lambda>c. cType c = ''Available'') (SetStatusCondition (wConditions web3) ?fin) = Some ?fin
     \<and> (res = None
          \<or> (\<exists>e. res = Some e
               \<and> setStatus web3 ConditionTrue ''Finished reconciliation'' w3 = (Inl e, w')))
     \<and> (list_all (\<lambda>f. f = None) (take 2 (faults w3)) \<longrightarrow> res = None)
     \<and> (res = None \<longrightarrow> (\<exists>web4. setStatus web3 ConditionTrue ''Finished reconciliation'' w3 = (Inr web4, w')))"
    if entry: "(if wConditions web = []
             then setStatus web ConditionUnknown ''Starting reconciliation'' w1
             else (Inr web, w1)) = (Inr web2, w2')"
      and steps: "runSteps reconcileFuncs web2 w2' = (Inr web3, w3)"
    for web2 w2' web3 w3
  proof -
    have key2: "wKey web2 = req"
      using entry key by (auto split: if_splits dest: setStatus_key)
    from runSteps_reconcileFuncs_calls[OF steps] have web3: "web3 = web2" by blast
    have stored2: "find (\<lambda>x. wKey x = req) (webservers w2') \<noteq> None"
    proof (cases "wConditions web = []")
      case True
      with entry have "setStatus web ConditionUnknown ''Starting reconciliation'' w1 = (Inr web2, w2')"
        by simp
      from setStatus_success[OF this] key show ?thesis by simp
    next
      case False
      with entry stored key show ?thesis by auto
    qed
    have "webservers w3 = webservers w2'" using steps by (rule runSteps_reconcileFuncs_webservers)
    with stored2 web3 key2 obtain y where
      stored3: "find (\<lambda>x. wKey x = wKey web3) (webservers w3) = Some y" by auto
    obtain r4 w4 where r4: "setStatus web3 ConditionTrue ''Finished reconciliation'' w3 = (r4, w4)"
      by fastforce
    from assms entry steps r4 have out: "w' = w4" "res = (case r4 of Inl e \<Rightarrow> Some e | Inr x \<Rightarrow> None)"
      by (auto simp: webserver_Reconcile_def split: sum.splits)
    from setStatus_first_call[OF r4] out web3 key2
    have a: "\<exists>rest. calls w' = calls w3 @
         CStatusUpdate req (SetStatusCondition (wConditions web3) ?fin) # rest"
      by simp
    have b: "find (\<lambda>c. cType c = ''Available'') (SetStatusCondition (wConditions web3) ?fin) = Some ?fin"
      using find_SetStatusCondition[of ?fin "wConditions web3"] by simp
    have c: "res = None
          \<or> (\<exists>e. res = Some e
               \<and> setStatus web3 ConditionTrue ''Finished reconciliation'' w3 = (Inl e, w'))"
      using r4 out by (cases r4) auto
    have d: "res = None" if "list_all (\<lambda>f. f = None) (take 2 (faults w3))"
      using setStatus_succeeds[OF that stored3, of ConditionTrue "''Finished reconciliation''"] r4 out
      by auto
    have e: "\<exists>web4. setStatus web3 ConditionTrue ''Finished reconciliation'' w3 = (Inr web4, w')"
      if "res = None"
      using that r4 out by (cases r4) auto
    from a b c d e show ?thesis by blast
  qed
  have final: "\<exists>pre conds web'.
               calls w' = pre @ [CStatusUpdate req conds, CGet KWebServer req]
               \<and> find (\<lambda>c. cType c = ''Available'') conds = Some ?fin
               \<and> find (\<lambda>x. wKey x = req) (webservers w') = Some web'
               \<and> wConditions web' = conds"
    if ok: "res = None"
  proof -
    from assms i ok obtain web2 where i2: "i = Inr web2"
      by (cases i) (auto simp: webserver_Reconcile_def)
    have key2: "wKey web2 = req"
      using i i2 key by (auto split: if_splits dest: setStatus_key)
    obtain r3 w3 where r3: "runSteps reconcileFuncs web2 w2 = (r3, w3)" by fastforce
    from assms i i2 r3 ok obtain web3 where r: "r3 = Inr web3"
      by (cases r3) (auto simp: webserver_Reconcile_def)
    from runSteps_reconcileFuncs_calls[OF r3] r have web3: "web3 = web2" by blast
    from last_write[OF i[unfolded i2] r3[unfolded r]] ok obtain web4 where
      r4: "setStatus web3 ConditionTrue ''Finished reconciliation'' w3 = (Inr web4, w')"
      by blast
    from setStatus_success[OF r4] web3 key2
    have a: "calls w' = calls w3 @ [CStatusUpdate req (SetStatusCondition (wConditions web3) ?fin),
                CGet KWebServer req]"
      and b: "find (\<lambda>x. wKey x = req) (webservers w') = Some web4"
      and c: "wConditions web4 = SetStatusCondition (wConditions web3) ?fin"
      by auto
    have d: "find (\<lambda>c. cType c = ''Available'') (SetStatusCondition (wConditions web3) ?fin) = Some ?fin"
      using find_SetStatusCondition[of ?fin "wConditions web3"] by simp
    from a b c d show ?thesis by blast
  qed
  from first final last_write show ?thesis by blast
qed

theorem status_conditions_of_a_pass_witness:
  "getObj (''ns'', ''s1'') world_site =
     ((Some site1, None), world_site\<lparr>calls := [CGet KWebServer (''ns'', ''s1'')]\<rparr>)
   \<and> wConditions site1 = []
   \<and> nextCallOk (world_site\<lparr>calls := [CGet KWebServer (''ns'', ''s1'')]\<rparr>)
   \<and> fst (webserver_Reconcile (''ns'', ''s1'') world_site) = None
   \<and> (\<exists>rest. calls (snd (webserver_Reconcile (''ns'', ''s1'') world_site)) =
         [CGet KWebServer (''ns'', ''s1''),
          CStatusUpdate (''ns'', ''s1'')
            [\<lparr>cType = ''Available'', cStatus = ConditionUnknown, cReason = ''Reconciling'',
              cMessage = ''Starting reconciliation''\<rparr>],
          CGet KWebServer (''ns'', ''s1'')] @ rest)
   \<and> (\<exists>web'. find (\<lambda>x. wKey x = (''ns'', ''s1''))
         (webservers (snd (webserver_Reconcile (''ns'', ''s1'') world_site))) = Some web'
        \<and> find (\<lambda>c. cType c = ''Available'') (wConditions web') =
            Some \<lparr>cType = ''Available'', cStatus = ConditionTrue, cReason = ''Reconciling'',
                  cMessage = ''Finished reconciliation''\<rparr>)
   \<and> setStatus site1 ConditionUnknown ''Starting reconciliation''
         (world_site\<lparr>calls := [CGet KWebServer (''ns'', ''s1'')]\<rparr>) =
       (Inr site1_started,
        world_site\<lparr>webservers := [site1_started],
          calls := [CGet KWebServer (''ns'', ''s1''),
                    CStatusUpdate (''ns'', ''s1'') (wConditions site1_started),
                    CGet KWebServer (''ns'', ''s1'')]\<rparr>)
   \<and> fst (runSteps reconcileFuncs site1_started
         (world_site\<lparr>webservers := [site1_started],
            calls := [CGet KWebServer (''ns'', ''s1''),
                      CStatusUpdate (''ns'', ''s1'') (wConditions site1_started),
                      CGet KWebServer (''ns'', ''s1'')]\<rparr>)) = Inr site1_started
   \<and> (\<exists>rest. calls (snd (webserver_Reconcile (''ns'', ''s1'') world_site)) =
         calls (snd (runSteps reconcileFuncs site1_started
           (world_site\<lparr>webservers := [site1_started],
              calls := [CGet KWebServer (''ns'', ''s1''),
                        CStatusUpdate (''ns'', ''s1'') (wConditions site1_started),
                        CGet KWebServer (''ns'', ''s1'')]\<rparr>)))
         @ CStatusUpdate (''ns'', ''s1'')
             [\<lparr>cType = ''Available'', cStatus = ConditionTrue, cReason = ''Reconciling'',
               cMessage = ''Finished reconciliation''\<rparr>] # rest)"
proof -
  let ?rq = "(''ns'', ''s1'')"
  let ?w1 = "world_site\<lparr>calls := [CGet KWebServer ?rq]\<rparr>"
  let ?w2 = "world_site\<lparr>webservers := [site1_started],
          calls := [CGet KWebServer ?rq, CStatusUpdate ?rq (wConditions site1_started),
                    CGet KWebServer ?rq]\<rparr>"
  let ?S = "runSteps reconcileFuncs site1_started ?w2"
  have g: "getObj ?rq world_site = ((Some site1, None), ?w1)"
    by (simp add: getObj_def client_defs example_defs)
  have e: "wConditions site1 = []" by (simp add: example_defs)
  have n: "nextCallOk ?w1" by (simp add: nextCallOk_def example_defs)
  have ok: "fst (webserver_Reconcile ?rq world_site) = None"
    by (simp add: web_defs client_defs example_defs)
  have c0: "calls world_site = []" by (simp add: example_defs)
  note T = status_conditions_of_a_pass [OF g surjective_pairing]
  from T e n c0 have first: "\<exists>rest. calls (snd (webserver_Reconcile ?rq world_site)) =
         [CGet KWebServer ?rq,
          CStatusUpdate ?rq
            [\<lparr>cType = ''Available'', cStatus = ConditionUnknown, cReason = ''Reconciling'',
              cMessage = ''Starting reconciliation''\<rparr>],
          CGet KWebServer ?rq] @ rest"
    by auto
  from T ok have final: "\<exists>web'. find (\<lambda>x. wKey x = ?rq)
         (webservers (snd (webserver_Reconcile ?rq world_site))) = Some web'
        \<and> find (\<lambda>c. cType c = ''Available'') (wConditions web') =
            Some \<lparr>cType = ''Available'', cStatus = ConditionTrue, cReason = ''Reconciling'',
                  cMessage = ''Finished reconciliation''\<rparr>"
    by blast
  have s: "setStatus site1 ConditionUnknown ''Starting reconciliation'' ?w1 = (Inr site1_started, ?w2)"
    by (simp add: setStatus_def typeAvailableWeb_def Let_def client_defs example_defs)
  have entry: "(if wConditions site1 = []
             then setStatus site1 ConditionUnknown ''Starting reconciliation'' ?w1
             else (Inr site1, ?w1)) = (Inr site1_started, ?w2)"
    using e s by simp
  have st: "fst ?S = Inr site1_started"
    by (simp add: web_defs client_defs example_defs)
  then have steps: "?S = (Inr site1_started, snd ?S)"
    by (metis surjective_pairing)
  from T [THEN conjunct2, THEN conjunct2, rule_format, OF conjI, OF entry steps, THEN conjunct1]
  have "\<exists>rest. calls (snd (webserver_Reconcile ?rq world_site)) =
         calls (snd ?S) @ CStatusUpdate ?rq
             [\<lparr>cType = ''Available'', cStatus = ConditionTrue, cReason = ''Reconciling'',
               cMessage = ''Finished reconciliation''\<rparr>] # rest"
    by (simp add: example_defs)
  with g e n ok first final s st show ?thesis by blast
qed

text \<open>
  C7.  The message of the failure report is not specific to the step.  On the site \<open>s1\<close>
  the fetch of the Service fails: the call returns that error, and the condition it
  writes and leaves is Available = False with the message ``Failed to create deployment'',
  the constant \<^verbatim>\<open>failWithStatus\<close> passes to \<^verbatim>\<open>setStatus\<close> in place of its argument \<^verbatim>\<open>msg\<close>.
\<close>

theorem failure_message_not_step_specific:
  "fst (webserver_Reconcile (''ns'', ''s1'') world_service_fails) = Some (ApiError ''service'')
   \<and> last (butlast (calls (snd (webserver_Reconcile (''ns'', ''s1'') world_service_fails)))) =
       CStatusUpdate (''ns'', ''s1'')
         [\<lparr>cType = ''Available'', cStatus = ConditionFalse, cReason = ''Reconciling'',
           cMessage = ''Failed to create deployment''\<rparr>]
   \<and> map wConditions (webservers (snd (webserver_Reconcile (''ns'', ''s1'') world_service_fails))) =
       [ [\<lparr>cType = ''Available'', cStatus = ConditionFalse, cReason = ''Reconciling'',
           cMessage = ''Failed to create deployment''\<rparr>] ]"
  by (simp add: web_defs client_defs example_defs eval_nat_numeral)


section \<open>The comparison of the workload\<close>

text \<open>
  With one container whose image differs from the site's, the replica count is never
  read: \<^verbatim>\<open>deploymentDiffers\<close> returns true although the pointer is nil.
\<close>

theorem deploymentDiffers_no_dereference_counterexample:
  "length (dContainers deployment_no_replicas) = 1
   \<and> dReplicas deployment_no_replicas = None
   \<and> deploymentDiffers site1 deployment_no_replicas = Some True"
  by (simp add: deploymentDiffers_def deployment_no_replicas_def site1_def)

text \<open>
  C10, amended.  \<^verbatim>\<open>deploymentDiffers\<close> dereferences the replica-count pointer exactly when
  there is one container and its image equals the site's image; so it panics exactly
  when, in addition, the pointer is nil, and returns a truth value in every other case.
\<close>

theorem deploymentDiffers_panics_iff:
  "deploymentDiffers web deployment = None \<longleftrightarrow>
     length (dContainers deployment) = 1
     \<and> wImage web = ctImage (dContainers deployment ! 0)
     \<and> dReplicas deployment = None"
  by (simp add: deploymentDiffers_def split: option.splits)

section \<open>The page reconciler: the aggregate\<close>

lemma prepareData_range_map:
  "map_of (prepareData_range items acc) =
     map_of acc ++ map_of (rev (map (\<lambda>p. (pSpecName p, bytes_of_string (pContents p)))
       (filter (\<lambda>p. pDeletionTimestamp p = None) items)))"
proof (induction items arbitrary: acc)
  case Nil
  then show ?case by simp
next
  case (Cons i items)
  show ?case
  proof (cases "pDeletionTimestamp i = None")
    case False
    then show ?thesis using Cons.IH[of acc] by auto
  next
    case True
    let ?k = "pSpecName i" and ?v = "bytes_of_string (pContents i)"
    let ?M = "map_of (rev (map (\<lambda>p. (pSpecName p, bytes_of_string (pContents p)))
       (filter (\<lambda>p. pDeletionTimestamp p = None) items)))"
    have "map_of (prepareData_range (i # items) acc) = map_of (AList.update ?k ?v acc) ++ ?M"
      using True Cons.IH[of "AList.update ?k ?v acc"] by simp
    also have "\<dots> = (map_of acc)(?k \<mapsto> ?v) ++ ?M"
      by (simp add: update_conv')
    also have "\<dots> = map_of acc ++ ([?k \<mapsto> ?v] ++ ?M)"
      by (rule ext) (simp add: map_add_def split: option.splits)
    finally show ?thesis using True by simp
  qed
qed

lemma prepareData_range_distinct:
  "distinct (map fst acc) \<Longrightarrow> distinct (map fst (prepareData_range items acc))"
  by (induction items arbitrary: acc) (auto simp: distinct_update)

lemma recomputed_is_aggregate_spec:
  "map_of (prepareData_range
      (filter (\<lambda>p. pNamespace p = ns \<and> pWebServer p = site) ps) []) =
   aggregate_spec ps ns site"
proof -
  have "filter (\<lambda>p. pDeletionTimestamp p = None) (filter (\<lambda>p. pNamespace p = ns \<and> pWebServer p = site) ps)
      = filter (\<lambda>p. pNamespace p = ns \<and> pWebServer p = site \<and> pDeletionTimestamp p = None) ps"
    by (induction ps) auto
  then show ?thesis by (simp add: prepareData_range_map aggregate_spec_def)
qed

lemma dom_aggregate_spec:
  "dom (aggregate_spec ps ns site) =
     pSpecName ` {p \<in> set ps. pNamespace p = ns \<and> pWebServer p = site \<and> pDeletionTimestamp p = None}"
  by (auto simp: aggregate_spec_def dom_map_of_conv_image_fst image_iff)

lemma client_list_items:
  "client_list ns site w = (Inr items, w1) \<Longrightarrow>
     items = filter (\<lambda>p. pNamespace p = ns \<and> pWebServer p = site) (pages w)
     \<and> Data w1 = Data w \<and> pages w1 = pages w \<and> calls w1 = calls w @ [CList ns site]"
  by (auto simp: client_list_def api_def split: prod.splits option.splits list.splits)

lemma prepareData_cache:
  assumes "client_list ns site w = (Inr items, w1)"
    and "wf_data (Data w (ns, site))"
    and "prepareData digest ns site w = (r, w')"
  shows "\<exists>d. Data w' (ns, site) = Some d \<and> distinct (map fst d)
             \<and> map_of d = aggregate_spec (pages w) ns site"
proof -
  let ?new = "prepareData_range items []"
  note l = client_list_items[OF assms(1)]
  have agg: "map_of ?new = aggregate_spec (pages w) ns site"
    using l recomputed_is_aggregate_spec[of ns site "pages w"] by simp
  have dn: "distinct (map fst ?new)" by (simp add: prepareData_range_distinct)
  have old: "GetData (ns, site) w1 = Data w (ns, site)" using l by (simp add: GetData_def)
  show ?thesis
  proof (cases "DataDiffer (Data w (ns, site)) (Some ?new)")
    case True
    with assms(1,3) old have "w' = SetData (ns, site) ?new w1"
      by (simp add: prepareData_def Let_def)
    with agg dn show ?thesis by (simp add: SetData_def)
  next
    case False
    with assms(1,3) old have same: "w' = w1" by (simp add: prepareData_def Let_def)
    from False obtain d where d: "Data w (ns, site) = Some d"
      by (cases "Data w (ns, site)") (auto simp: DataDiffer_def)
    with assms(2) have dd: "distinct (map fst d)" by (simp add: wf_data_def)
    from False d have "map_of d = map_of ?new"
      using DataDiffer_Some_iff[OF dd dn] by simp
    with agg dd d same l show ?thesis by simp
  qed
qed

text \<open>
  C6.  When the listing succeeds, it returns the pages of the namespace whose
  \<^verbatim>\<open>spec.webserver\<close> is the site; the aggregate recomputed from it is the map of the
  specification: the listed pages that are not marked for deletion, display name to
  content bytes, so that its keys are exactly the display names of those pages and a page
  marked for deletion contributes nothing.  After the step the cache of the site holds
  that map.
\<close>

theorem recomputed_aggregate:
  assumes "client_list ns site w = (Inr items, w1)"
    and "wf_data (Data w (ns, site))"
    and "prepareData digest ns site w = (r, w')"
  shows "items = filter (\<lambda>p. pNamespace p = ns \<and> pWebServer p = site) (pages w)
       \<and> map_of (prepareData_range items []) = aggregate_spec (pages w) ns site
       \<and> dom (map_of (prepareData_range items [])) =
           pSpecName ` {p \<in> set (pages w).
              pNamespace p = ns \<and> pWebServer p = site \<and> pDeletionTimestamp p = None}
       \<and> (\<exists>d. Data w' (ns, site) = Some d \<and> distinct (map fst d)
             \<and> map_of d = aggregate_spec (pages w) ns site)"
proof -
  note l = client_list_items[OF assms(1)]
  from l have items: "items = filter (\<lambda>p. pNamespace p = ns \<and> pWebServer p = site) (pages w)"
    by simp
  have agg: "map_of (prepareData_range items []) = aggregate_spec (pages w) ns site"
    unfolding items by (rule recomputed_is_aggregate_spec)
  have dom: "dom (map_of (prepareData_range items [])) = pSpecName ` {p \<in> set (pages w).
              pNamespace p = ns \<and> pWebServer p = site \<and> pDeletionTimestamp p = None}"
    unfolding agg by (rule dom_aggregate_spec)
  from items agg dom prepareData_cache[OF assms] show ?thesis by blast
qed

theorem recomputed_aggregate_witness:
  "client_list ''ns'' ''s1'' world_pages =
     (Inr [page1, page1\<lparr>pName := ''p2'', pSpecName := ''old'', pDeletionTimestamp := Some 1\<rparr>],
      world_pages\<lparr>calls := [CList ''ns'' ''s1'']\<rparr>)
   \<and> wf_data (Data world_pages (''ns'', ''s1''))
   \<and> aggregate_spec (pages world_pages) ''ns'' ''s1'' = [''idx'' \<mapsto> bytes_of_string ''hello'']
   \<and> Data (snd (prepareData example_digest ''ns'' ''s1'' world_pages)) (''ns'', ''s1'') =
       Some [(''idx'', bytes_of_string ''hello'')]"
proof -
  have l: "client_list ''ns'' ''s1'' world_pages =
     (Inr [page1, page1\<lparr>pName := ''p2'', pSpecName := ''old'', pDeletionTimestamp := Some 1\<rparr>],
      world_pages\<lparr>calls := [CList ''ns'' ''s1'']\<rparr>)"
    by (simp add: client_defs example_defs)
  have wf: "wf_data (Data world_pages (''ns'', ''s1''))"
    by (simp add: wf_data_def example_defs)
  note T = recomputed_aggregate [OF l wf surjective_pairing, of example_digest]
  from T [THEN conjunct2, THEN conjunct1]
  have "aggregate_spec (pages world_pages) ''ns'' ''s1'' =
      map_of (prepareData_range
        [page1, page1\<lparr>pName := ''p2'', pSpecName := ''old'', pDeletionTimestamp := Some 1\<rparr>] [])"
    by (rule sym)
  also have "\<dots> = [''idx'' \<mapsto> bytes_of_string ''hello'']"
    by (simp add: example_defs)
  finally have a: "aggregate_spec (pages world_pages) ''ns'' ''s1'' = [''idx'' \<mapsto> bytes_of_string ''hello'']" .
  have "Data (snd (prepareData example_digest ''ns'' ''s1'' world_pages)) (''ns'', ''s1'') =
       Some [(''idx'', bytes_of_string ''hello'')]"
    by (simp add: pages_defs client_defs example_defs Let_def)
  with l wf a show ?thesis by blast
qed

section \<open>The page reconciler: the site lookup and the finalizer\<close>

lemma getPage_facts:
  assumes "getPage req w = ((Some page, e), w1)"
  shows "pKey page = req" "calls w1 = calls w @ [CGet KPage req]" "Data w1 = Data w"
    "pages w1 = pages w"
  using assms
  by (auto simp: getPage_def client_get_def api_def dest: find_key
      split: prod.splits sum.splits option.splits if_splits list.splits)

lemma addFinalizer_facts:
  assumes "addFinalizer page w = ((r, page2), w')"
  shows "pNamespace page2 = pNamespace page" "pWebServer page2 = pWebServer page"
    "Data w' = Data w"
    "calls w' = calls w \<or> calls w' = calls w @ [CUpdate KPage (pKey page)]"
  using assms
  by (auto simp: addFinalizer_def AddFinalizer_def client_update_page_def api_def pKey_def
      split: prod.splits option.splits if_splits list.splits)

lemma getWebServer_facts:
  assumes "getWebServer n w = (r, w')"
  shows "calls w' = calls w @ [CGet KWebServer n]" "Data w' = Data w" "pages w' = pages w"
  using assms
  by (auto simp: getWebServer_def client_get_def api_def
      split: prod.splits sum.splits option.splits list.splits)

lemma getPage_found:
  "getPage req w = ((Some page, e), w1) \<Longrightarrow> find (\<lambda>x. pKey x = req) (pages w1) = Some page"
  by (auto simp: getPage_def dest!: client_get_found split: prod.splits sum.splits if_splits)

lemma find_map_replace:
  "find (\<lambda>x. key x = n) xs = Some y \<Longrightarrow> key z = n \<Longrightarrow>
     find (\<lambda>x. key x = n) (map (\<lambda>y. if key y = n then z else y) xs) = Some z"
  by (induction xs) (auto split: if_splits)

lemma addFinalizer_live:
  assumes "addFinalizer page w = ((None, page2), w')"
    and "pDeletionTimestamp page = None"
  shows "if pageFinalizer \<in> set (pFinalizers page)
         then page2 = page \<and> w' = w
         else page2 = page\<lparr>pFinalizers := pFinalizers page @ [pageFinalizer]\<rparr>
              \<and> calls w' = calls w @ [CUpdate KPage (pKey page)]
              \<and> pages w' = map (\<lambda>y. if pKey y = pKey page then page2 else y) (pages w)"
  using assms
  by (auto simp: addFinalizer_def AddFinalizer_def client_update_page_def api_def pKey_def
      split: prod.splits option.splits if_splits list.splits)

text \<open>
  A page that is not marked for deletion gets its finalizer before the site is looked up:
  on the page \<open>p1\<close> without finalizer, whose site does not exist, the call writes the page
  with the finalizer and only then returns the lookup error.
\<close>

theorem finalizer_added_before_site_lookup_counterexample:
  "pages_Reconcile example_digest (''ns'', ''p1'') world_no_site =
     (Some NotFound,
      world_no_site\<lparr>pages := [page1\<lparr>pFinalizers := [pageFinalizer]\<rparr>],
        calls := [CGet KPage (''ns'', ''p1''), CUpdate KPage (''ns'', ''p1''),
                  CGet KWebServer (''ns'', ''s1'')]\<rparr>)
   \<and> pFinalizers page1 = []"
  by (simp add: pages_defs client_defs example_defs)

text \<open>
  C9, amended.  When the lookup of the referenced WebServer fails, the call returns that
  error in the state the lookup left: nothing was listed, the cache is as before, and the
  only requests made are the fetch of the page, at most one write of the page and the
  lookup.  For a page marked for deletion nothing is written and the stored pages are
  untouched, so its finalizer stays.  A page not marked for deletion has its finalizer
  by then: either it carried it and nothing was written, or the finalizer was appended
  and the page written back before the lookup.  In every case the stored page keeps all
  the finalizers it had.
\<close>

theorem site_lookup_failure_ends_the_pass:
  assumes "getPage req w = ((Some page, None), w1)"
    and "(if pDeletionTimestamp page = None then addFinalizer page w1
          else ((None, page), w1)) = ((None, page2), w2)"
    and "getWebServer (pNamespace page2, pWebServer page2) w2 = (Inl e, w3)"
  shows "pages_Reconcile digest req w = (Some e, w3)
       \<and> Data w3 = Data w
       \<and> (\<exists>upd. calls w3 = calls w @ [CGet KPage req] @ upd
                     @ [CGet KWebServer (pNamespace page, pWebServer page)]
                 \<and> (upd = [] \<or> upd = [CUpdate KPage req]))
       \<and> (pDeletionTimestamp page \<noteq> None \<longrightarrow>
            pages w3 = pages w
            \<and> find (\<lambda>x. pKey x = req) (pages w3) = Some page
            \<and> calls w3 = calls w @ [CGet KPage req,
                                      CGet KWebServer (pNamespace page, pWebServer page)])
       \<and> (pDeletionTimestamp page = None \<and> pageFinalizer \<in> set (pFinalizers page) \<longrightarrow>
            pages w3 = pages w
            \<and> find (\<lambda>x. pKey x = req) (pages w3) = Some page
            \<and> calls w3 = calls w @ [CGet KPage req,
                                      CGet KWebServer (pNamespace page, pWebServer page)])
       \<and> (pDeletionTimestamp page = None \<and> pageFinalizer \<notin> set (pFinalizers page) \<longrightarrow>
            pages w3 = map (\<lambda>y. if pKey y = req
                                  then page\<lparr>pFinalizers := pFinalizers page @ [pageFinalizer]\<rparr>
                                  else y) (pages w)
            \<and> find (\<lambda>x. pKey x = req) (pages w3) =
                Some (page\<lparr>pFinalizers := pFinalizers page @ [pageFinalizer]\<rparr>)
            \<and> calls w3 = calls w @ [CGet KPage req, CUpdate KPage req,
                                      CGet KWebServer (pNamespace page, pWebServer page)])
       \<and> (\<exists>p. find (\<lambda>x. pKey x = req) (pages w3) = Some p
               \<and> set (pFinalizers page) \<subseteq> set (pFinalizers p)
               \<and> (pDeletionTimestamp page = None \<longrightarrow> pageFinalizer \<in> set (pFinalizers p)))"
proof -
  note g = getPage_facts[OF assms(1)]
  note s = getWebServer_facts[OF assms(3)]
  have found: "find (\<lambda>x. pKey x = req) (pages w) = Some page"
    using getPage_found[OF assms(1)] g(4) by simp
  have res: "pages_Reconcile digest req w = (Some e, w3)"
    using assms by (simp add: pages_Reconcile_def Let_def)
  have same: "pNamespace page2 = pNamespace page \<and> pWebServer page2 = pWebServer page
      \<and> Data w2 = Data w1
      \<and> (calls w2 = calls w1 \<or> calls w2 = calls w1 @ [CUpdate KPage req])"
  proof (cases "pDeletionTimestamp page = None")
    case True
    with assms(2) have "addFinalizer page w1 = ((None, page2), w2)" by simp
    from addFinalizer_facts[OF this] g(1) show ?thesis by simp
  next
    case False
    with assms(2) show ?thesis by auto
  qed
  have marked: "pages w3 = pages w
            \<and> find (\<lambda>x. pKey x = req) (pages w3) = Some page
            \<and> calls w3 = calls w @ [CGet KPage req,
                                      CGet KWebServer (pNamespace page, pWebServer page)]"
    if "pDeletionTimestamp page \<noteq> None"
    using that assms(2) g s found by auto
  have kept: "pages w3 = pages w
            \<and> find (\<lambda>x. pKey x = req) (pages w3) = Some page
            \<and> calls w3 = calls w @ [CGet KPage req,
                                      CGet KWebServer (pNamespace page, pWebServer page)]"
    if live: "pDeletionTimestamp page = None" and has: "pageFinalizer \<in> set (pFinalizers page)"
  proof -
    from assms(2) live have "addFinalizer page w1 = ((None, page2), w2)" by simp
    from addFinalizer_live[OF this live] has have "page2 = page" "w2 = w1" by simp_all
    with g s found show ?thesis by simp
  qed
  have added: "pages w3 = map (\<lambda>y. if pKey y = req
                                  then page\<lparr>pFinalizers := pFinalizers page @ [pageFinalizer]\<rparr>
                                  else y) (pages w)
            \<and> find (\<lambda>x. pKey x = req) (pages w3) =
                Some (page\<lparr>pFinalizers := pFinalizers page @ [pageFinalizer]\<rparr>)
            \<and> calls w3 = calls w @ [CGet KPage req, CUpdate KPage req,
                                      CGet KWebServer (pNamespace page, pWebServer page)]"
    if live: "pDeletionTimestamp page = None" and hasnt: "pageFinalizer \<notin> set (pFinalizers page)"
  proof -
    let ?p = "page\<lparr>pFinalizers := pFinalizers page @ [pageFinalizer]\<rparr>"
    from assms(2) live have "addFinalizer page w1 = ((None, page2), w2)" by simp
    from addFinalizer_live[OF this live] hasnt g(1)
    have p2: "page2 = ?p" and c2: "calls w2 = calls w1 @ [CUpdate KPage req]"
      and st: "pages w2 = map (\<lambda>y. if pKey y = req then ?p else y) (pages w1)"
      by simp_all
    have kp: "pKey ?p = req" using g(1) by (simp add: pKey_def)
    have "find (\<lambda>x. pKey x = req) (map (\<lambda>y. if pKey y = req then ?p else y) (pages w)) = Some ?p"
      using found kp by (rule find_map_replace)
    with p2 c2 st g s show ?thesis by simp
  qed
  have data: "Data w3 = Data w" using same g s by simp
  have log: "\<exists>upd. calls w3 = calls w @ [CGet KPage req] @ upd
                     @ [CGet KWebServer (pNamespace page, pWebServer page)]
                 \<and> (upd = [] \<or> upd = [CUpdate KPage req])"
    using same g(2) s(1) by auto
  have stays: "\<exists>p. find (\<lambda>x. pKey x = req) (pages w3) = Some p
               \<and> set (pFinalizers page) \<subseteq> set (pFinalizers p)
               \<and> (pDeletionTimestamp page = None \<longrightarrow> pageFinalizer \<in> set (pFinalizers p))"
  proof (cases "pDeletionTimestamp page = None")
    case False
    with marked show ?thesis by auto
  next
    case True
    show ?thesis
    proof (cases "pageFinalizer \<in> set (pFinalizers page)")
      case has: True
      with kept[OF True] True show ?thesis by auto
    next
      case False
      with added[OF True] show ?thesis by auto
    qed
  qed
  from res data log marked kept added stays show ?thesis by blast
qed

theorem site_lookup_failure_ends_the_pass_witness:
  "getPage (''ns'', ''p1'') world_no_site_deleting =
     ((Some (page1\<lparr>pDeletionTimestamp := Some 1, pFinalizers := [pageFinalizer]\<rparr>), None),
      world_no_site_deleting\<lparr>calls := [CGet KPage (''ns'', ''p1'')]\<rparr>)
   \<and> getWebServer (''ns'', ''s1'') (world_no_site_deleting\<lparr>calls := [CGet KPage (''ns'', ''p1'')]\<rparr>) =
       (Inl NotFound,
        world_no_site_deleting\<lparr>calls := [CGet KPage (''ns'', ''p1''), CGet KWebServer (''ns'', ''s1'')]\<rparr>)
   \<and> pages_Reconcile example_digest (''ns'', ''p1'') world_no_site_deleting =
       (Some NotFound,
        world_no_site_deleting\<lparr>calls := [CGet KPage (''ns'', ''p1''), CGet KWebServer (''ns'', ''s1'')]\<rparr>)
   \<and> map pFinalizers (pages world_no_site_deleting) = [ [pageFinalizer] ]
   \<and> getPage (''ns'', ''p1'') world_no_site =
       ((Some page1, None), world_no_site\<lparr>calls := [CGet KPage (''ns'', ''p1'')]\<rparr>)
   \<and> pDeletionTimestamp page1 = None
   \<and> pageFinalizer \<notin> set (pFinalizers page1)
   \<and> addFinalizer page1 (world_no_site\<lparr>calls := [CGet KPage (''ns'', ''p1'')]\<rparr>) =
       ((None, page1\<lparr>pFinalizers := [pageFinalizer]\<rparr>),
        world_no_site\<lparr>pages := [page1\<lparr>pFinalizers := [pageFinalizer]\<rparr>],
          calls := [CGet KPage (''ns'', ''p1''), CUpdate KPage (''ns'', ''p1'')]\<rparr>)
   \<and> find (\<lambda>x. pKey x = (''ns'', ''p1''))
         (pages (snd (getWebServer (''ns'', ''s1'')
            (world_no_site\<lparr>pages := [page1\<lparr>pFinalizers := [pageFinalizer]\<rparr>],
               calls := [CGet KPage (''ns'', ''p1''), CUpdate KPage (''ns'', ''p1'')]\<rparr>)))) =
       Some (page1\<lparr>pFinalizers := pFinalizers page1 @ [pageFinalizer]\<rparr>)"
proof -
  let ?page = "page1\<lparr>pDeletionTimestamp := Some 1, pFinalizers := [pageFinalizer]\<rparr>"
  let ?w1 = "world_no_site_deleting\<lparr>calls := [CGet KPage (''ns'', ''p1'')]\<rparr>"
  let ?w3 = "world_no_site_deleting\<lparr>calls := [CGet KPage (''ns'', ''p1''), CGet KWebServer (''ns'', ''s1'')]\<rparr>"
  have g: "getPage (''ns'', ''p1'') world_no_site_deleting = ((Some ?page, None), ?w1)"
    by (simp add: getPage_def client_defs example_defs)
  have a: "(if pDeletionTimestamp ?page = None then addFinalizer ?page ?w1
          else ((None, ?page), ?w1)) = ((None, ?page), ?w1)"
    by simp
  have s: "getWebServer (''ns'', ''s1'') ?w1 = (Inl NotFound, ?w3)"
    by (simp add: getWebServer_def client_defs example_defs)
  then have s': "getWebServer (pNamespace ?page, pWebServer ?page) ?w1 = (Inl NotFound, ?w3)"
    by (simp add: example_defs)
  have f: "map pFinalizers (pages world_no_site_deleting) = [ [pageFinalizer] ]"
    by (simp add: example_defs)
  from site_lookup_failure_ends_the_pass [OF g a s', of example_digest]
  have r1: "pages_Reconcile example_digest (''ns'', ''p1'') world_no_site_deleting = (Some NotFound, ?w3)"
    by blast
  let ?live = "page1\<lparr>pFinalizers := [pageFinalizer]\<rparr>"
  let ?v1 = "world_no_site\<lparr>calls := [CGet KPage (''ns'', ''p1'')]\<rparr>"
  let ?v2 = "world_no_site\<lparr>pages := [?live],
          calls := [CGet KPage (''ns'', ''p1''), CUpdate KPage (''ns'', ''p1'')]\<rparr>"
  have g2: "getPage (''ns'', ''p1'') world_no_site = ((Some page1, None), ?v1)"
    by (simp add: getPage_def client_defs example_defs)
  have l: "pDeletionTimestamp page1 = None" by (simp add: example_defs)
  have nf: "pageFinalizer \<notin> set (pFinalizers page1)" by (simp add: example_defs)
  have ad: "addFinalizer page1 ?v1 = ((None, ?live), ?v2)"
    by (simp add: addFinalizer_def AddFinalizer_def client_defs example_defs)
  have a2: "(if pDeletionTimestamp page1 = None then addFinalizer page1 ?v1
          else ((None, page1), ?v1)) = ((None, ?live), ?v2)"
    using l ad by simp
  have "getWebServer (''ns'', ''s1'') ?v2 = (Inl NotFound, snd (getWebServer (''ns'', ''s1'') ?v2))"
    by (simp add: getWebServer_def client_defs example_defs)
  then have s2: "getWebServer (pNamespace ?live, pWebServer ?live) ?v2 =
      (Inl NotFound, snd (getWebServer (''ns'', ''s1'') ?v2))"
    by (simp add: example_defs)
  from site_lookup_failure_ends_the_pass [OF g2 a2 s2, of example_digest] l nf
  have r2: "find (\<lambda>x. pKey x = (''ns'', ''p1''))
         (pages (snd (getWebServer (''ns'', ''s1'') ?v2))) =
       Some (page1\<lparr>pFinalizers := pFinalizers page1 @ [pageFinalizer]\<rparr>)"
    by blast
  from g s r1 f g2 l nf ad r2 show ?thesis by blast
qed

text \<open>
  C1.  The finalizer can be removed while the cached aggregate still holds the entry of
  the page.  The page \<open>p1\<close> is marked for deletion and carries the finalizer, the cache
  of its site holds \<open>idx\<close>, and the listing fails: \<^verbatim>\<open>Reconcile\<close> logs the error of
  \<^verbatim>\<open>prepareData\<close> and goes on, writes the page without finalizer (which lets the deletion
  complete) and returns success, the cache unchanged.
\<close>

theorem finalizer_removed_after_failed_listing:
  "pages_Reconcile example_digest (''ns'', ''p1'') world_stale =
     (None, world_stale\<lparr>pages := [], faults := [],
        calls := [CGet KPage (''ns'', ''p1''), CGet KWebServer (''ns'', ''s1''),
                  CList ''ns'' ''s1'', CUpdate KPage (''ns'', ''p1'')]\<rparr>)
   \<and> Data world_stale (''ns'', ''s1'') = Some [(''idx'', bytes_of_string ''hello'')]"
  by (simp add: pages_defs client_defs example_defs)

lemma setWebStatus_Data: "setWebStatus web hash w = (r, w') \<Longrightarrow> Data w' = Data w"
  by (auto simp: setWebStatus_def Let_def client_update_webserver_def api_def
      split: prod.splits option.splits list.splits)

lemma removeFinalizer_Data: "removeFinalizer page w = (r, w') \<Longrightarrow> Data w' = Data w"
  by (auto simp: removeFinalizer_def RemoveFinalizer_def client_update_page_def api_def
      split: prod.splits option.splits list.splits if_splits)

text \<open>
  What does hold of the deletion protocol: when the listing succeeds, a pass on a page
  marked for deletion that returns success leaves in the cache the aggregate of the pages
  not marked for deletion, so without the entry of this page.
\<close>

lemma finalizer_removed_after_recompute:
  assumes "getPage req w = ((Some page, None), w1)"
    and "pDeletionTimestamp page \<noteq> None"
    and "getWebServer (pNamespace page, pWebServer page) w1 = (Inr web, w2)"
    and "client_list (pNamespace page) (pWebServer page) w2 = (Inr items, w3)"
    and "wf_data (Data w (pNamespace page, pWebServer page))"
    and "pages_Reconcile digest req w = (None, w')"
  shows "\<exists>d. Data w' (pNamespace page, pWebServer page) = Some d
           \<and> map_of d = aggregate_spec (pages w) (pNamespace page) (pWebServer page)"
proof -
  let ?ns = "pNamespace page" and ?site = "pWebServer page"
  note g = getPage_facts[OF assms(1)]
  note s = getWebServer_facts[OF assms(3)]
  obtain r4 w4 where p: "prepareData digest ?ns ?site w2 = (r4, w4)" by fastforce
  have "wf_data (Data w2 (?ns, ?site))" using assms(5) g s by simp
  from prepareData_cache[OF assms(4) this p] g s obtain d where
    d: "Data w4 (?ns, ?site) = Some d" "map_of d = aggregate_spec (pages w) ?ns ?site"
    by auto
  obtain changed hash e3 where r4: "r4 = (changed, hash, e3)" by (cases r4) auto
  obtain r5 w5 where u: "(if changed then setWebStatus web hash w4 else (None, w4)) = (r5, w5)"
    by fastforce
  then have d5: "Data w5 = Data w4" by (auto split: if_splits dest: setWebStatus_Data)
  from assms(1,2,3,6) p r4 u have r5: "r5 = None"
    by (cases r5) (auto simp: pages_Reconcile_def Let_def)
  obtain r6 w6 where f: "removeFinalizer page w5 = (r6, w6)" by fastforce
  then have d6: "Data w6 = Data w5" by (rule removeFinalizer_Data)
  from assms(1,2,3,6) p r4 u r5 f have "w' = w6"
    by (auto simp: pages_Reconcile_def Let_def split: prod.splits option.splits)
  with d d5 d6 show ?thesis by simp
qed

section \<open>The digest\<close>

text \<open>
  The bytes written to the digest depend on the aggregate as a map only: two lists of
  entries with the same keys and values, in whatever order, give the same bytes, hence
  the same digest.
\<close>

lemma hashInput_order_independent:
  assumes "distinct (map fst a)" and "distinct (map fst b)" and "map_of a = map_of b"
  shows "hashInput a = hashInput b"
proof -
  have "set (map fst a) = dom (map_of a)" by (simp add: dom_map_of_conv_image_fst)
  also have "\<dots> = dom (map_of b)" using assms(3) by simp
  also have "\<dots> = set (map fst b)" by (simp add: dom_map_of_conv_image_fst)
  finally have "set (sort (map fst a)) = set (sort (map fst b))" by simp
  moreover have "distinct (sort (map fst a))" "distinct (sort (map fst b))"
    using assms(1,2) by simp_all
  ultimately have "sort (map fst a) = sort (map fst b)"
    by (intro sorted_distinct_set_unique) simp_all
  with assms(3) show ?thesis by (simp add: hashInput_def Let_def)
qed

lemma makeHash_order_independent:
  assumes "distinct (map fst a)" and "distinct (map fst b)" and "map_of a = map_of b"
  shows "makeHash digest a = makeHash digest b"
  using hashInput_order_independent[OF assms] by (simp add: makeHash_def)

text \<open>
  Replacing the value of a key by another value of the same length changes the bytes
  written to the digest.  Whether the digest of the changed bytes differs is a property of
  SHA-1 (it has collisions, none of them known for such a pair), not of this program.
\<close>

lemma hashInput_value_change:
  assumes "distinct (map fst a)" and "map_of a k = Some v"
    and "length v' = length v" and "v' \<noteq> v"
  shows "hashInput (AList.update k v' a) \<noteq> hashInput a"
proof -
  let ?b = "AList.update k v' a"
  let ?f = "\<lambda>m k. bytes_of_string k @ (case map_of m k of None \<Rightarrow> [] | Some v \<Rightarrow> v)"
  have kin: "k \<in> fst ` set a" using assms(2) by (meson domI dom_map_of_conv_image_fst[THEN equalityD1] subsetD)
  then have keys: "map fst ?b = map fst a" by (simp add: update_keys)
  have "k \<in> set (sort (map fst a))" using kin by simp
  then obtain pre post where sp: "sort (map fst a) = pre @ k # post"
    by (meson split_list)
  have "distinct (sort (map fst a))" using assms(1) by simp
  with sp have notin: "k \<notin> set pre" "k \<notin> set post" by auto
  have other: "?f ?b x = ?f a x" if "x \<noteq> k" for x
    using that by (simp add: update_conv')
  have pre: "map (?f ?b) pre = map (?f a) pre"
  proof (rule map_cong[OF refl])
    fix x assume "x \<in> set pre"
    with notin(1) have "x \<noteq> k" by auto
    then show "?f ?b x = ?f a x" by (rule other)
  qed
  have post: "map (?f ?b) post = map (?f a) post"
  proof (rule map_cong[OF refl])
    fix x assume "x \<in> set post"
    with notin(2) have "x \<noteq> k" by auto
    then show "?f ?b x = ?f a x" by (rule other)
  qed
  have ha: "hashInput a = concat (map (?f a) pre) @ bytes_of_string k @ v @ concat (map (?f a) post)"
    using assms(2) by (simp add: hashInput_def Let_def sp)
  have "hashInput ?b = concat (map (?f ?b) (pre @ k # post))"
    by (simp add: hashInput_def Let_def keys sp)
  also have "\<dots> = concat (map (?f ?b) pre) @ ?f ?b k @ concat (map (?f ?b) post)"
    by simp
  also have "\<dots> = concat (map (?f a) pre) @ ?f ?b k @ concat (map (?f a) post)"
    by (simp only: pre post)
  also have "?f ?b k = bytes_of_string k @ v'"
    by (simp add: update_conv')
  finally have hb: "hashInput ?b =
      concat (map (?f a) pre) @ (bytes_of_string k @ v') @ concat (map (?f a) post)" .
  show ?thesis
  proof
    assume "hashInput ?b = hashInput a"
    with ha hb have "v' @ concat (map (?f a) post) = v @ concat (map (?f a) post)" by simp
    then have "v' = v" by simp
    with assms(4) show False by simp
  qed
qed

end
